theory Spec2Isabelle
  imports Main
begin

section \<open>merge\_pull.py: a scripted pull-request merge\<close>

text \<open>
  The script is a straight line of \<^verbatim>\<open>git\<close> invocations with three branches and two
  interactive prompts. Everything it does is an effect on the outside world, so the
  model threads a \<open>world\<close> through the script: the subprocesses the world will
  start, the lines waiting on standard input, and the trace of what the script has done
  so far. Every \<^verbatim>\<open>sys.exit\<close> and every exception the script can raise on its data is
  a value of type \<open>abort\<close>.

  Representation of text: a Python \<^verbatim>\<open>str\<close> is represented by its UTF-8 encoding, a
  \<open>string\<close> of bytes. The representation is one-to-one, so equality of texts is
  equality of their encodings, and the ASCII characters the script looks at
  (\<^verbatim>\<open><\<close>, \<^verbatim>\<open>y\<close>) are single bytes.
\<close>

subsection \<open>Text and bytes\<close>

type_synonym str = string

text \<open>\<^verbatim>\<open>sep.join(xs)\<close>\<close>

fun join :: "str \<Rightarrow> str list \<Rightarrow> str" where
  "join sep [] = []"
| "join sep [x] = x"
| "join sep (x # y # ys) = x @ sep @ join sep (y # ys)"

text \<open>\<^verbatim>\<open>s.startswith(p)\<close>\<close>

definition startswith :: "str \<Rightarrow> str \<Rightarrow> bool" where
  "startswith s p = (take (length p) s = p)"

text \<open>
  \<^verbatim>\<open>bytes.rstrip()\<close> with no argument removes trailing ASCII whitespace: space, tab,
  line feed, carriage return, vertical tab and form feed.
\<close>

definition is_space :: "char \<Rightarrow> bool" where
  "is_space c = (c = CHR 0x20 \<or> c = CHR 0x09 \<or> c = CHR 0x0A \<or> c = CHR 0x0D
     \<or> c = CHR 0x0B \<or> c = CHR 0x0C)"

definition rstrip :: "string \<Rightarrow> string" where
  "rstrip s = rev (dropWhile is_space (rev s))"

text \<open>
  \<^verbatim>\<open>str.lower()\<close> on the ASCII letters. Outside ASCII, Python applies the Unicode
  lower-case mapping; the script only compares the result with the one-letter text
  \<^verbatim>\<open>y\<close>, which that mapping produces from \<^verbatim>\<open>y\<close> and \<^verbatim>\<open>Y\<close> alone, so the
  comparison is the same.
\<close>

definition lower_char :: "char \<Rightarrow> char" where
  "lower_char c = (let n = (of_char c :: nat) in
     if 0x41 \<le> n \<and> n \<le> 0x5A then char_of (n + 0x20) else c)"

definition lower :: "str \<Rightarrow> str" where
  "lower s = map lower_char s"

text \<open>\<^verbatim>\<open>'{0}'.format(n)\<close> for an integer: decimal digits, with a minus sign when negative.\<close>

fun str_nat :: "nat \<Rightarrow> str" where
  "str_nat n = (if n < 10 then [char_of (0x30 + n)]
     else str_nat (n div 10) @ [char_of (0x30 + n mod 10)])"

definition str_int :: "int \<Rightarrow> str" where
  "str_int i = (if i < 0 then CHR ''-'' # str_nat (nat (- i)) else str_nat (nat i))"

subsection \<open>Exceptions and exits\<close>

datatype py_error = IndexError | StopIteration | EOFError | UnicodeDecodeError

text \<open>
  \<open>Exit n\<close> is \<^verbatim>\<open>sys.exit(n)\<close> (a \<^verbatim>\<open>SystemExit\<close> nobody catches);
  \<open>Raised e\<close> is an exception that reaches the top level.
\<close>

datatype abort = Exit int | Raised py_error

text \<open>
  \<^verbatim>\<open>bytes.decode('utf-8')\<close> is strict: it raises \<^verbatim>\<open>UnicodeDecodeError\<close> unless the
  bytes are well-formed UTF-8 (no stray continuation byte, no truncated or overlong
  sequence, no surrogate, nothing above U+10FFFF). With text represented by its
  encoding, decoding well-formed bytes returns them unchanged.
\<close>

definition byte_in :: "nat \<Rightarrow> nat \<Rightarrow> char \<Rightarrow> bool" where
  "byte_in lo hi c = (lo \<le> (of_char c :: nat) \<and> (of_char c :: nat) \<le> hi)"

fun utf8_valid :: "string \<Rightarrow> bool" where
  "utf8_valid [] = True"
| "utf8_valid (a # bs) =
     (if byte_in 0x00 0x7F a then utf8_valid bs
      else if byte_in 0xC2 0xDF a then
        (case bs of b # r \<Rightarrow> byte_in 0x80 0xBF b \<and> utf8_valid r | _ \<Rightarrow> False)
      else if byte_in 0xE0 0xEF a then
        (case bs of b # c # r \<Rightarrow>
           (if a = CHR 0xE0 then byte_in 0xA0 0xBF b
            else if a = CHR 0xED then byte_in 0x80 0x9F b
            else byte_in 0x80 0xBF b)
           \<and> byte_in 0x80 0xBF c \<and> utf8_valid r
         | _ \<Rightarrow> False)
      else if byte_in 0xF0 0xF4 a then
        (case bs of b # c # d # r \<Rightarrow>
           (if a = CHR 0xF0 then byte_in 0x90 0xBF b
            else if a = CHR 0xF4 then byte_in 0x80 0x8F b
            else byte_in 0x80 0xBF b)
           \<and> byte_in 0x80 0xBF c \<and> byte_in 0x80 0xBF d \<and> utf8_valid r
         | _ \<Rightarrow> False)
      else False)"

definition decode :: "string \<Rightarrow> abort + str" where
  "decode bs = (if utf8_valid bs then Inr bs else Inl (Raised UnicodeDecodeError))"

subsection \<open>The world\<close>

text \<open>
  A subprocess, as the script sees it through \<^verbatim>\<open>Popen(cmdline, stdout=PIPE,
  stderr=STDOUT)\<close>: the bytes it writes to the one pipe that carries both its standard
  output and its standard error, and the code it exits with. Only subprocesses that end
  are modelled.
\<close>

record proc =
  out :: string
  returncode :: int

text \<open>
  What the script does, in order: a line printed, a subprocess started with its command
  line, a subprocess waited for with the code it returned, a line asked for with
  \<^verbatim>\<open>input(prompt)\<close>.
\<close>

datatype event = Print str | Popen "str list" | Wait int | Input str

text \<open>
  \<open>procs w n cmdline\<close> is the subprocess the world starts when the script's
  \<open>n\<close>-th \<^verbatim>\<open>Popen\<close> (counting from 0) is given \<open>cmdline\<close>; \<open>stdin w\<close> are the
  lines \<^verbatim>\<open>input\<close> will still return before end of input.
\<close>

record world =
  procs :: "nat \<Rightarrow> str list \<Rightarrow> proc"
  spawned :: nat
  stdin :: "str list"
  trace :: "event list"

type_synonym 'a prog = "world \<Rightarrow> (abort + 'a) \<times> world"

definition ret :: "'a \<Rightarrow> 'a prog" where
  "ret x = (\<lambda>w. (Inr x, w))"

definition raise :: "abort \<Rightarrow> 'a prog" where
  "raise e = (\<lambda>w. (Inl e, w))"

text \<open>Sequencing: an abort of the first part skips the second.\<close>

definition bnd :: "'a prog \<Rightarrow> ('a \<Rightarrow> 'b prog) \<Rightarrow> 'b prog" where
  "bnd m f = (\<lambda>w. case m w of (Inl e, w') \<Rightarrow> (Inl e, w') | (Inr x, w') \<Rightarrow> f x w')"

definition thn :: "'a prog \<Rightarrow> 'b prog \<Rightarrow> 'b prog" where
  "thn m n = bnd m (\<lambda>_. n)"

definition emit :: "event \<Rightarrow> unit prog" where
  "emit e = (\<lambda>w. (Inr (), w\<lparr>trace := trace w @ [e]\<rparr>))"

text \<open>\<^verbatim>\<open>print(s)\<close>\<close>

definition print :: "str \<Rightarrow> unit prog" where
  "print s = emit (Print s)"

text \<open>
  \<^verbatim>\<open>input(prompt)\<close>: writes the prompt and returns the next line of standard input
  without its newline, or raises \<^verbatim>\<open>EOFError\<close> at end of input.
\<close>

definition input :: "str \<Rightarrow> str prog" where
  "input prompt = (\<lambda>w. case stdin w of
       [] \<Rightarrow> (Inl (Raised EOFError), w\<lparr>trace := trace w @ [Input prompt]\<rparr>)
     | l # ls \<Rightarrow> (Inr l, w\<lparr>stdin := ls, trace := trace w @ [Input prompt]\<rparr>))"

text \<open>\<^verbatim>\<open>sys.exit(n)\<close>\<close>

definition sys_exit :: "int \<Rightarrow> 'a prog" where
  "sys_exit n = raise (Exit n)"

subsection \<open>The command runner (lines 46--72)\<close>

text \<open>
  \<^verbatim>\<open>proc.stdout.readline()\<close> on the rest of the pipe: the bytes up to and including the
  next line feed, or all that is left when there is none; empty at end of file.
\<close>

fun readline :: "string \<Rightarrow> string \<times> string" where
  "readline [] = ([], [])"
| "readline (c # cs) =
     (if c = CHR 0x0A then ([c], cs)
      else (case readline cs of (l, r) \<Rightarrow> (c # l, r)))"

text \<open>
  The \<^verbatim>\<open>while True\<close> loop of lines 56--63 over what is left of the pipe, with the
  list \<^verbatim>\<open>output\<close> built so far.
\<close>

function read_output :: "string \<Rightarrow> str list \<Rightarrow> str list prog" where
  "read_output buf output w =
     (case readline buf of (line, rest) \<Rightarrow>
        if line = [] then (Inr output, w)
        else (case decode (rstrip line) of
                Inl e \<Rightarrow> (Inl e, w)
              | Inr l \<Rightarrow> read_output rest (output @ [l]) (snd (print (''git> '' @ l) w))))"
  by pat_completeness auto

termination
proof (relation "measure (\<lambda>(buf, output, w). length buf)")
  have whole: "length (fst (readline buf)) + length (snd (readline buf)) = length buf" for buf
    by (induction buf) (auto split: prod.splits)
  have shorter: "length rest < length buf"
    if "readline buf = (line, rest)" and "line \<noteq> []" for buf line rest
    using whole [of buf] that by (cases line) auto
  show "wf (measure (\<lambda>(buf, output, w). length buf))"
    by simp
  show "((rest, acc @ [l], snd (print (''git> '' @ l) w)), buf, acc, w)
      \<in> measure (\<lambda>(buf, output, w). length buf)"
    if "(line, rest) = readline buf" and "line \<noteq> []"
    for buf acc w line rest l
    using shorter [of buf line rest] that by simp
qed

declare read_output.simps [simp del]

text \<open>\<^verbatim>\<open>def git(*arguments)\<close>\<close>

definition git :: "str list \<Rightarrow> str list prog" where
  "git arguments =
     (let cmdline = [''git''] @ arguments in
      thn (print [])
     (thn (print (join '' '' cmdline))
     (bnd (\<lambda>w. (Inr (procs w (spawned w) cmdline),
                 w\<lparr>spawned := Suc (spawned w), trace := trace w @ [Popen cmdline]\<rparr>)) (\<lambda>proc.
      thn (print [])
     (bnd (read_output (out proc) []) (\<lambda>output.
      thn (print [])
     (bnd (\<lambda>w. (Inr (returncode proc), w\<lparr>trace := trace w @ [Wait (returncode proc)]\<rparr>))
       (\<lambda>return_code.
      if return_code \<noteq> 0 then
        thn (print [])
       (thn (print (''Git command terminated with exit code '' @ str_int return_code @ ''.''))
            (sys_exit 1))
      else ret output))))))))"

subsection \<open>Command line (lines 27--43)\<close>

text \<open>The namespace \<^verbatim>\<open>parse_args\<close> returns; \<^verbatim>\<open>--message\<close> has no default and is \<^verbatim>\<open>None\<close> when absent.\<close>

record args =
  target_branch :: str
  remote :: str
  message :: "str option"
  assume_yes :: bool

text \<open>
  \<^verbatim>\<open>ArgumentParser.parse_args\<close> belongs to the standard library. The model takes what
  the library makes of \<^verbatim>\<open>sys.argv\<close> as the script's input: a usage error (an unknown
  option such as \<^verbatim>\<open>--bogus\<close>, a stray positional argument, an option without its
  value), a request for help (\<^verbatim>\<open>-h\<close>, \<^verbatim>\<open>--help\<close>), or the four option values. On a
  usage error the library prints the usage and exits with status 2; after printing the
  help it exits with status 0.
\<close>

datatype command_line = Usage_error | Help | Options args

definition parse_args :: "command_line \<Rightarrow> args prog" where
  "parse_args cl = (case cl of
       Usage_error \<Rightarrow> sys_exit 2
     | Help \<Rightarrow> sys_exit 0
     | Options a \<Rightarrow> ret a)"

subsection \<open>The merge (lines 75--155)\<close>

text \<open>\<^verbatim>\<open>xs[0]\<close>\<close>

definition item0 :: "'a list \<Rightarrow> 'a prog" where
  "item0 xs = (case xs of [] \<Rightarrow> raise (Raised IndexError) | x # _ \<Rightarrow> ret x)"

text \<open>
  Line 95: \<^verbatim>\<open>next(commit for commit in commits if commit.startswith('<'))[1:]\<close>.
  \<^verbatim>\<open>next\<close> on a generator that yields nothing raises \<^verbatim>\<open>StopIteration\<close>.
\<close>

fun first_commit_on_branch :: "str list \<Rightarrow> str prog" where
  "first_commit_on_branch [] = raise (Raised StopIteration)"
| "first_commit_on_branch (commit # commits) =
     (if startswith commit ''<'' then ret (drop 1 commit)
      else first_commit_on_branch commits)"

text \<open>
  Lines 120 and 148: \<^verbatim>\<open>assume_yes or 'y' == input(prompt).lower()\<close>. The \<^verbatim>\<open>or\<close>
  does not evaluate its right side when the left is true.
\<close>

definition confirm :: "bool \<Rightarrow> str \<Rightarrow> bool prog" where
  "confirm yes prompt =
     (if yes then ret True
      else bnd (input prompt) (\<lambda>answer. ret (''y'' = lower answer)))"

text \<open>
  Lines 125--131: the loop that reads the message, line by line, until \<^verbatim>\<open>input\<close>
  raises \<^verbatim>\<open>EOFError\<close>, the only exception it catches.
\<close>

function read_contents :: "str list \<Rightarrow> str list prog" where
  "read_contents contents w =
     (case input [] w of
        (Inl e, w') \<Rightarrow> if e = Raised EOFError then (Inr contents, w') else (Inl e, w')
      | (Inr msg_line, w') \<Rightarrow> read_contents (contents @ [msg_line]) w')"
  by pat_completeness auto

termination
  by (relation "measure (\<lambda>(contents, w). length (stdin w))")
     (auto simp: input_def split: list.splits)

declare read_contents.simps [simp del]

text \<open>Lines 124--132: the user types the message.\<close>

definition enter_message :: "str prog" where
  "enter_message =
     thn (print ''Enter/paste your message. Hit Ctrl-D to save it.'')
    (bnd (read_contents []) (\<lambda>contents.
         ret (join [CHR 0x0A] contents)))"

text \<open>Lines 113--132: show the message of the first commit and ask whether to use it again.\<close>

definition ask_message :: "args \<Rightarrow> str \<Rightarrow> str prog" where
  "ask_message a msg_of_first_commit =
     thn (print ''Message of the first commit on this branch:'')
    (thn (print ''----'')
    (thn (print [])
    (thn (print msg_of_first_commit)
    (thn (print [])
    (thn (print ''----'')
    (bnd (confirm (assume_yes a) ''Re-use the this message (y/N): '') (\<lambda>reuse.
     if reuse then
       thn (print ''Re-using commit messsage...'')
           (ret msg_of_first_commit)
     else enter_message)))))))"

text \<open>
  Lines 112--132: the message of the squashed commit. \<^verbatim>\<open>not message\<close> holds for
  \<^verbatim>\<open>None\<close> and for the empty text.
\<close>

definition commit_message :: "args \<Rightarrow> str \<Rightarrow> str prog" where
  "commit_message a msg_of_first_commit =
     (case message a of
        None \<Rightarrow> ask_message a msg_of_first_commit
      | Some m \<Rightarrow> if m = [] then ask_message a msg_of_first_commit else ret m)"

text \<open>Line 75.\<close>

definition target_branch_remote :: "args \<Rightarrow> str" where
  "target_branch_remote a = remote a @ ''/'' @ target_branch a"

text \<open>Lines 104--134: more than one commit, merge and squash.\<close>

definition squash :: "args \<Rightarrow> str \<Rightarrow> unit prog" where
  "squash a first_commit =
     bnd (git [''show'', ''--no-patch'', ''--format=%B'', first_commit]) (\<lambda>shown.
     let msg_of_first_commit = join [CHR 0x0A] shown in
     thn (print ''Merging in upstream changes...'')
    (thn (git [''merge'', target_branch_remote a])
    (thn (print ''Squashing commits...'')
    (thn (git [''reset'', ''--soft'', target_branch_remote a])
    (bnd (commit_message a msg_of_first_commit) (\<lambda>msg.
     thn (git [''commit'', ''-m'', msg])
         (ret ())))))))"

text \<open>Lines 100--134.\<close>

definition rebase_or_squash :: "args \<Rightarrow> str \<Rightarrow> str \<Rightarrow> unit prog" where
  "rebase_or_squash a first_commit head_sha1 =
     (if first_commit = head_sha1 then
        thn (print ''Rebasing commit(s)...'')
       (thn (git [''rebase'', target_branch_remote a])
            (ret ()))
      else squash a first_commit)"

text \<open>Lines 136--146: both pushes, the checkout and the pull.\<close>

definition push_and_pull :: "args \<Rightarrow> str \<Rightarrow> unit prog" where
  "push_and_pull a feature_branch =
     thn (print ''Force-pushing commit to feature branch...'')
    (thn (git [''push'', ''--force'', remote a, ''HEAD:'' @ feature_branch])
    (thn (print ''Pushing commit to target branch...'')
    (thn (git [''push'', remote a, ''HEAD:'' @ target_branch a])
    (thn (print ''Switching to target branch...'')
    (thn (git [''checkout'', target_branch a])
    (thn (print ''Pulling in upstream changes...'')
    (thn (git [''pull'', remote a, target_branch a, ''--rebase''])
         (ret ()))))))))"

text \<open>Lines 149--153.\<close>

definition delete_feature_branch :: "args \<Rightarrow> str \<Rightarrow> unit prog" where
  "delete_feature_branch a feature_branch =
     thn (print ''Deleting feature branch...'')
    (thn (git [''branch'', ''-d'', feature_branch])
    (thn (print ''Deleting feature branch on server...'')
    (thn (git [''push'', remote a, feature_branch, ''--delete''])
         (ret ()))))"

text \<open>Lines 148--155.\<close>

definition cleanup :: "args \<Rightarrow> str \<Rightarrow> unit prog" where
  "cleanup a feature_branch =
     bnd (confirm (assume_yes a) ''Delete feature branches (y/N): '') (\<lambda>delete.
     thn (if delete then delete_feature_branch a feature_branch else ret ())
         (print ''Good bye.''))"

text \<open>Lines 86--96: fetch, list the divergence, find the first commit and HEAD.\<close>

definition first_and_head :: "args \<Rightarrow> (str \<times> str) prog" where
  "first_and_head a =
     thn (print ''Fetching upstream changes...'')
    (thn (git [''fetch'', remote a])
    (bnd (git [''rev-list'', ''--left-right'', ''--reverse'',
               ''HEAD...'' @ target_branch_remote a]) (\<lambda>commits.
     bnd (first_commit_on_branch commits) (\<lambda>first_commit.
     bnd (bnd (git [''rev-parse'', ''HEAD'']) item0) (\<lambda>head_sha1.
     ret (first_commit, head_sha1))))))"

text \<open>Lines 76--80: the branch names and what they point to.\<close>

definition branches :: "args \<Rightarrow> (str \<times> str \<times> str) prog" where
  "branches a =
     bnd (bnd (git [''rev-parse'', ''--abbrev-ref'', ''--verify'', ''HEAD'']) item0)
       (\<lambda>feature_branch.
     bnd (bnd (git [''rev-parse'', target_branch a]) item0) (\<lambda>target_branch_ref.
     bnd (bnd (git [''rev-parse'', feature_branch]) item0) (\<lambda>feature_branch_ref.
     thn (print (''Merging pull request for branch '' @ feature_branch
                 @ '' with target branch '' @ target_branch a @ ''...''))
         (ret (feature_branch, target_branch_ref, feature_branch_ref)))))"

text \<open>Lines 82--84.\<close>

definition same_ref_guard :: "str \<Rightarrow> str \<Rightarrow> unit prog" where
  "same_ref_guard target_branch_ref feature_branch_ref =
     (if target_branch_ref = feature_branch_ref then
        thn (print (''Target branch and HEAD point to the same ref. ''
                    @ ''Make sure you are on your feature branch.''))
            (sys_exit 1)
      else ret ())"

text \<open>Lines 75--155 in order.\<close>

definition merge_pull :: "args \<Rightarrow> unit prog" where
  "merge_pull a =
     bnd (branches a) (\<lambda>(feature_branch, target_branch_ref, feature_branch_ref).
     thn (same_ref_guard target_branch_ref feature_branch_ref)
    (bnd (first_and_head a) (\<lambda>(first_commit, head_sha1).
     thn (rebase_or_squash a first_commit head_sha1)
    (thn (push_and_pull a feature_branch)
         (cleanup a feature_branch)))))"

text \<open>The whole script, from the command line.\<close>

definition script :: "command_line \<Rightarrow> unit prog" where
  "script cl = bnd (parse_args cl) merge_pull"

text \<open>The world before the script starts.\<close>

definition start :: "(nat \<Rightarrow> str list \<Rightarrow> proc) \<Rightarrow> str list \<Rightarrow> world" where
  "start ps lines = \<lparr>procs = ps, spawned = 0, stdin = lines, trace = []\<rparr>"

text \<open>
  The status the interpreter hands to the operating system: 0 when the script runs off
  its end, the argument of \<^verbatim>\<open>sys.exit\<close>, and 1 after printing the traceback of an
  exception nobody caught.
\<close>

definition exit_status :: "abort + unit \<Rightarrow> int" where
  "exit_status r = (case r of Inr _ \<Rightarrow> 0 | Inl (Exit n) \<Rightarrow> n | Inl (Raised _) \<Rightarrow> 1)"

section \<open>What a run shows\<close>

subsection \<open>The output of a subprocess\<close>

text \<open>
  The lines of a subprocess's output, as the specification speaks of them: the pieces
  between line feeds, without the line feeds, a last piece without line feed included
  when it is not empty. This definition follows the specification's words, not the
  loop of lines 56--63; the two are compared below.
\<close>

fun output_lines :: "string \<Rightarrow> string list" where
  "output_lines [] = []"
| "output_lines (c # cs) =
     (if c = CHR 0x0A then [] # output_lines cs
      else (case output_lines cs of [] \<Rightarrow> [[c]] | l # ls \<Rightarrow> (c # l) # ls))"

text \<open>
  The lines trimmed of trailing whitespace, and whether every one of them decodes.
\<close>

definition captured :: "string \<Rightarrow> str list" where
  "captured raw = map rstrip (output_lines raw)"

definition decodable :: "string \<Rightarrow> bool" where
  "decodable raw = list_all utf8_valid (captured raw)"

text \<open>
  The events of one call of \<open>git\<close> and its result, as functions of the subprocess
  the world starts; lemma \<open>git_run\<close> shows that \<open>git\<close> computes exactly these.
\<close>

definition echo :: "str list \<Rightarrow> event list" where
  "echo ls = map (\<lambda>l. Print (''git> '' @ l)) ls"

definition announce :: "str list \<Rightarrow> event list" where
  "announce cmdline = [Print [], Print (join '' '' cmdline), Popen cmdline, Print []]"

definition diagnostic :: "int \<Rightarrow> str" where
  "diagnostic rc = ''Git command terminated with exit code '' @ str_int rc @ ''.''"

definition git_events :: "str list \<Rightarrow> proc \<Rightarrow> event list" where
  "git_events cmdline p =
     (if \<not> decodable (out p) then
        announce cmdline @ echo (takeWhile utf8_valid (captured (out p)))
      else announce cmdline @ echo (captured (out p)) @ [Print [], Wait (returncode p)]
        @ (if returncode p \<noteq> 0 then [Print [], Print (diagnostic (returncode p))] else []))"

definition git_result :: "proc \<Rightarrow> abort + str list" where
  "git_result p =
     (if \<not> decodable (out p) then Inl (Raised UnicodeDecodeError)
      else if returncode p \<noteq> 0 then Inl (Exit 1)
      else Inr (captured (out p)))"

text \<open>
  A subprocess that succeeds without printing anything.
\<close>

definition silent :: "proc \<Rightarrow> bool" where
  "silent p = (out p = [] \<and> returncode p = 0)"


subsection \<open>Traces\<close>

text \<open>
  The command lines a trace has started, in order, and the subcommand of a command
  line (\<^verbatim>\<open>push\<close> in \<^verbatim>\<open>git push origin HEAD:master\<close>).
\<close>

fun cmds :: "event list \<Rightarrow> str list list" where
  "cmds [] = []"
| "cmds (Popen cmdline # evs) = cmdline # cmds evs"
| "cmds (_ # evs) = cmds evs"

definition verb :: "str list \<Rightarrow> str" where
  "verb cmdline = (case cmdline of _ # v # _ \<Rightarrow> v | _ \<Rightarrow> [])"

text \<open>
  The command lines of the script, by name.
\<close>

definition rev_parse_head_ref :: "str list" where
  "rev_parse_head_ref = [''git'', ''rev-parse'', ''--abbrev-ref'', ''--verify'', ''HEAD'']"

definition fetch_cmd :: "args \<Rightarrow> str list" where
  "fetch_cmd a = [''git'', ''fetch'', remote a]"

definition rev_list_cmd :: "args \<Rightarrow> str list" where
  "rev_list_cmd a = [''git'', ''rev-list'', ''--left-right'', ''--reverse'',
     ''HEAD...'' @ target_branch_remote a]"




definition force_push_cmd :: "args \<Rightarrow> str \<Rightarrow> str list" where
  "force_push_cmd a feature_branch = [''git'', ''push'', ''--force'', remote a, ''HEAD:'' @ feature_branch]"

definition push_target_cmd :: "args \<Rightarrow> str list" where
  "push_target_cmd a = [''git'', ''push'', remote a, ''HEAD:'' @ target_branch a]"

definition checkout_cmd :: "args \<Rightarrow> str list" where
  "checkout_cmd a = [''git'', ''checkout'', target_branch a]"

definition pull_cmd :: "args \<Rightarrow> str list" where
  "pull_cmd a = [''git'', ''pull'', remote a, target_branch a, ''--rebase'']"

definition publishing :: "args \<Rightarrow> str \<Rightarrow> str list list" where
  "publishing a fb = [force_push_cmd a fb, push_target_cmd a, checkout_cmd a, pull_cmd a]"

text \<open>
  Kinds of events: those of the squash (the merge, the soft reset, the commit, the
  question about the message and the lines read for it), the commit alone, and
  everything that is not one of the four commands of lines 136--146.
\<close>

fun squashing :: "event \<Rightarrow> bool" where
  "squashing (Popen cmdline) =
     (verb cmdline = ''merge'' \<or> verb cmdline = ''reset'' \<or> verb cmdline = ''commit'')"
| "squashing (Input prompt) = (prompt = ''Re-use the this message (y/N): '' \<or> prompt = [])"
| "squashing _ = False"




definition aside :: "args \<Rightarrow> str \<Rightarrow> event \<Rightarrow> bool" where
  "aside a fb e = (case e of Popen c \<Rightarrow> c \<notin> set (publishing a fb) | _ \<Rightarrow> True)"

text \<open>
  A trace fails fast when every wait that returns a non-zero code is followed by the
  diagnostic for that code and by nothing else, and the run ends with \<^verbatim>\<open>sys.exit(1)\<close>.
\<close>

fun fail_fast :: "event list \<Rightarrow> abort option \<Rightarrow> bool" where
  "fail_fast [] r = True"
| "fail_fast (Wait rc # evs) r =
     (if rc \<noteq> 0 then evs = [Print [], Print (diagnostic rc)] \<and> r = Some (Exit 1)
      else fail_fast evs r)"
| "fail_fast (_ # evs) r = fail_fast evs r"

definition orderly :: "event list \<Rightarrow> abort option \<Rightarrow> bool" where
  "orderly evs r = (fail_fast evs r \<and> (\<forall>n. r = Some (Exit n) \<longrightarrow> n = 1))"

subsection \<open>Properties of every run of a part of the script\<close>

text \<open>
  \<open>always Q m\<close>: whatever the world, \<open>m\<close> only appends events to the trace, and
  the events it appends satisfy \<open>Q\<close> together with the way \<open>m\<close> ended.
  \<open>emits_only P m\<close>: every event \<open>m\<close> appends satisfies \<open>P\<close>.
  \<open>steps m plan\<close>: the command lines \<open>m\<close> starts are a prefix of \<open>plan\<close>,
  all of it when \<open>m\<close> returns.
\<close>

definition outcome :: "abort + 'a \<Rightarrow> abort option" where
  "outcome r = (case r of Inl e \<Rightarrow> Some e | Inr _ \<Rightarrow> None)"

definition always :: "(event list \<Rightarrow> abort option \<Rightarrow> bool) \<Rightarrow> 'a prog \<Rightarrow> bool" where
  "always Q m = (\<forall>w r w'. m w = (r, w') \<longrightarrow>
     (\<exists>evs. trace w' = trace w @ evs \<and> Q evs (outcome r)))"

definition composable :: "(event list \<Rightarrow> abort option \<Rightarrow> bool) \<Rightarrow> bool" where
  "composable Q = (Q [] None \<and> (\<forall>e1 e2 r. Q e1 None \<longrightarrow> Q e2 r \<longrightarrow> Q (e1 @ e2) r))"

definition emits_only :: "(event \<Rightarrow> bool) \<Rightarrow> 'a prog \<Rightarrow> bool" where
  "emits_only P m = always (\<lambda>evs _. list_all P evs) m"

definition quiet_ok :: "(event \<Rightarrow> bool) \<Rightarrow> bool" where
  "quiet_ok P = ((\<forall>s. P (Print s)) \<and> (\<forall>n. P (Wait n)))"

definition steps :: "'a prog \<Rightarrow> str list list \<Rightarrow> bool" where
  "steps m plan = (\<forall>w r w'. m w = (r, w') \<longrightarrow>
     (\<exists>n \<le> length plan. cmds (trace w') = cmds (trace w) @ take n plan
        \<and> (outcome r = None \<longrightarrow> n = length plan)))"

subsection \<open>Example worlds\<close>

text \<open>
  \<open>replies ps\<close> answers the \<open>n\<close>-th command with the \<open>n\<close>-th subprocess of
  \<open>ps\<close>, and with a silent success after that; \<open>says ls\<close> prints the lines
  \<open>ls\<close> and exits with 0. \<open>default_args\<close> are the defaults of lines 31--36.
\<close>

definition replies :: "proc list \<Rightarrow> nat \<Rightarrow> str list \<Rightarrow> proc" where
  "replies ps n cmdline = (if n < length ps then ps ! n else \<lparr>out = [], returncode = 0\<rparr>)"

definition says :: "str list \<Rightarrow> proc" where
  "says ls = \<lparr>out = concat (map (\<lambda>l. l @ [CHR 0x0A]) ls), returncode = 0\<rparr>"

definition default_args :: args where
  "default_args = \<lparr>target_branch = ''master'', remote = ''origin'', message = None, assume_yes = False\<rparr>"

definition yes_args :: args where
  "yes_args = default_args\<lparr>assume_yes := True\<rparr>"


text \<open>
  A branch at the same commit as its target; a branch two commits ahead; the same
  branch when the first line of the first commit's message ends in two blanks; a command
  line with a message; a branch one commit ahead; a fetch that fails; a divergence
  without a commit of our own; a \<^verbatim>\<open>rev-parse HEAD\<close> that prints nothing.
\<close>

definition same_ref :: "nat \<Rightarrow> str list \<Rightarrow> proc" where
  "same_ref = replies [says [''feature/x''], says [''aaa''], says [''aaa'']]"

definition two_ahead :: "nat \<Rightarrow> str list \<Rightarrow> proc" where
  "two_ahead = replies [says [''feature/x''], says [''aaa''], says [''bbb''], says [],
     says [''>ccc'', ''<ddd'', ''<bbb''], says [''bbb''], says [''Add x'', [], ''Details.'', []]]"



definition one_ahead :: "nat \<Rightarrow> str list \<Rightarrow> proc" where
  "one_ahead = replies [says [''feature/x''], says [''aaa''], says [''bbb''], says [],
     says [''>ccc'', ''<bbb''], says [''bbb'']]"

definition refusal :: proc where
  "refusal = \<lparr>out = ''fatal: unable to access the remote'' @ [CHR 0x0A], returncode = 128\<rparr>"

definition refused :: "nat \<Rightarrow> str list \<Rightarrow> proc" where
  "refused = replies [says [''feature/x''], says [''aaa''], says [''bbb''], refusal]"

definition no_left :: "nat \<Rightarrow> str list \<Rightarrow> proc" where
  "no_left = replies [says [''feature/x''], says [''aaa''], says [''bbb''], says [],
     says [''>ccc'']]"

definition headless :: "nat \<Rightarrow> str list \<Rightarrow> proc" where
  "headless = replies [says [''feature/x''], says [''aaa''], says [''bbb''], says [],
     says [''<bbb''], says []]"

text \<open>
  Output that is not UTF-8 (a name in Latin-1), with and without a failure, and output
  with trailing blanks, a carriage return and no final line feed.
\<close>

definition garbled :: proc where
  "garbled = \<lparr>out = ''fatal: caf'' @ [CHR 0xE9, CHR 0x0A], returncode = 128\<rparr>"

definition garbled_quietly :: proc where
  "garbled_quietly = \<lparr>out = ''caf'' @ [CHR 0xE9, CHR 0x0A], returncode = 0\<rparr>"

definition padded :: proc where
  "padded = \<lparr>out = ''bbb  '' @ [CHR 0x0D, CHR 0x0A] @ ''second'', returncode = 0\<rparr>"

section \<open>Lemmas\<close>

subsection \<open>Sequencing\<close>

lemma bnd_ret [simp]: "bnd (ret x) f = f x"
  by (simp add: bnd_def ret_def)

lemma bnd_raise [simp]: "bnd (raise e) f = raise e"
  by (simp add: bnd_def raise_def)

lemma bndE:
  assumes "bnd m f w = (r, w')"
  obtains (stop) e where "m w = (Inl e, w')" and "r = Inl e"
        | (go) x w1 where "m w = (Inr x, w1)" and "f x w1 = (r, w')"
  using assms by (auto simp: bnd_def split: prod.splits sum.splits)

lemma thnE:
  assumes "thn m n w = (r, w')"
  obtains (stop) e where "m w = (Inl e, w')" and "r = Inl e"
        | (go) x w1 where "m w = (Inr x, w1)" and "n w1 = (r, w')"
  using assms unfolding thn_def by (rule bndE)

subsection \<open>The loop that reads the output\<close>

lemma rstrip_newline: "rstrip (l @ [CHR 0x0A]) = rstrip l"
  by (simp add: rstrip_def is_space_def)

lemma readline_Nil_iff: "fst (readline buf) = [] \<longleftrightarrow> buf = []"
  by (cases buf) (auto split: prod.splits)

lemma output_lines_readline:
  "buf \<noteq> [] \<Longrightarrow> readline buf = (line, rest) \<Longrightarrow>
     \<exists>l. output_lines buf = l # output_lines rest \<and> (line = l \<or> line = l @ [CHR 0x0A])"
proof (induction buf arbitrary: line rest)
  case Nil
  then show ?case by simp
next
  case (Cons c cs)
  show ?case
  proof (cases "c = CHR 0x0A")
    case True
    with Cons.prems show ?thesis by auto
  next
    case False
    show ?thesis
    proof (cases cs)
      case Nil
      with False Cons.prems show ?thesis by auto
    next
      case (Cons d ds)
      obtain l1 r1 where rl: "readline cs = (l1, r1)" by (cases "readline cs")
      from Cons.IH [OF _ rl] Cons obtain l where
        "output_lines cs = l # output_lines r1" "l1 = l \<or> l1 = l @ [CHR 0x0A]" by auto
      with False Cons.prems rl show ?thesis by auto
    qed
  qed
qed

lemma read_output_run:
  "read_output buf acc w =
     (if decodable buf then
        (Inr (acc @ captured buf), w\<lparr>trace := trace w @ echo (captured buf)\<rparr>)
      else
        (Inl (Raised UnicodeDecodeError),
         w\<lparr>trace := trace w @ echo (takeWhile utf8_valid (captured buf))\<rparr>))"
proof (induction buf acc w rule: read_output.induct)
  case (1 buf acc w)
  show ?case
  proof (cases "buf = []")
    case True
    then show ?thesis
      by (simp add: read_output.simps decodable_def captured_def echo_def)
  next
    case False
    obtain line rest where rl: "readline buf = (line, rest)" by (cases "readline buf")
    from False rl have ne: "line \<noteq> []" using readline_Nil_iff [of buf] by auto
    from output_lines_readline [OF False rl] obtain l where
      ol: "output_lines buf = l # output_lines rest" and l: "line = l \<or> line = l @ [CHR 0x0A]"
      by auto
    from l have rs: "rstrip line = rstrip l" by (auto simp: rstrip_newline)
    show ?thesis
    proof (cases "utf8_valid (rstrip l)")
      case True
      then have d: "decode (rstrip line) = Inr (rstrip l)" by (simp add: decode_def rs)
      from "1.IH" [OF rl [symmetric] ne d]
      show ?thesis
        by (subst read_output.simps)
           (simp add: rl ne d ol decodable_def captured_def echo_def True print_def emit_def)
    next
      case nv: False
      then have d: "decode (rstrip line) = Inl (Raised UnicodeDecodeError)"
        by (simp add: decode_def rs)
      show ?thesis
        by (subst read_output.simps)
           (simp add: rl ne d ol decodable_def captured_def echo_def nv)
    qed
  qed
qed

subsection \<open>The command runner, exactly\<close>

lemma git_run:
  "git arguments w =
     (git_result (procs w (spawned w) (''git'' # arguments)),
      w\<lparr>spawned := Suc (spawned w),
        trace := trace w @ git_events (''git'' # arguments) (procs w (spawned w) (''git'' # arguments))\<rparr>)"
  by (simp add: git_def thn_def bnd_def print_def emit_def read_output_run Let_def
      sys_exit_def raise_def ret_def git_events_def git_result_def announce_def diagnostic_def)

subsection \<open>Rules for properties of every run\<close>

lemma outcome_simps [simp]: "outcome (Inl e) = Some e" "outcome (Inr x) = None"
  by (simp_all add: outcome_def)

lemma alwaysD:
  "always Q m \<Longrightarrow> m w = (r, w') \<Longrightarrow> \<exists>evs. trace w' = trace w @ evs \<and> Q evs (outcome r)"
  by (simp add: always_def)

lemma always_ret: "Q [] None \<Longrightarrow> always Q (ret x)"
  by (simp add: always_def ret_def)

lemma always_raise: "Q [] (Some e) \<Longrightarrow> always Q (raise e)"
  by (simp add: always_def raise_def)

lemma always_sys_exit: "Q [] (Some (Exit n)) \<Longrightarrow> always Q (sys_exit n)"
  by (simp add: sys_exit_def always_raise)

lemma always_print: "Q [Print s] None \<Longrightarrow> always Q (print s)"
  by (auto simp: always_def print_def emit_def)

lemma always_input:
  "Q [Input p] None \<Longrightarrow> Q [Input p] (Some (Raised EOFError)) \<Longrightarrow> always Q (input p)"
  by (auto simp: always_def input_def split: list.splits)

lemma always_git:
  "(\<And>p. Q (git_events (''git'' # arguments) p) (outcome (git_result p))) \<Longrightarrow>
     always Q (git arguments)"
  by (auto simp: always_def git_run)

lemma always_bnd:
  assumes "composable Q" and "always Q m" and "\<And>x. always Q (f x)"
  shows "always Q (bnd m f)"
  unfolding always_def
proof (intro allI impI)
  fix w r w'
  assume run: "bnd m f w = (r, w')"
  then show "\<exists>evs. trace w' = trace w @ evs \<and> Q evs (outcome r)"
  proof (cases rule: bndE)
    case (stop e)
    with alwaysD [OF assms(2), of w "Inl e" w'] show ?thesis by simp
  next
    case (go x w1)
    from alwaysD [OF assms(2) go(1)] obtain e1 where
      e1: "trace w1 = trace w @ e1" "Q e1 None" by auto
    from alwaysD [OF assms(3) go(2)] obtain e2 where
      e2: "trace w' = trace w1 @ e2" "Q e2 (outcome r)" by auto
    from assms(1) e1(2) e2(2) have "Q (e1 @ e2) (outcome r)"
      by (simp add: composable_def)
    with e1 e2 show ?thesis by auto
  qed
qed

lemma emits_onlyD:
  "emits_only P m \<Longrightarrow> m w = (r, w') \<Longrightarrow> \<exists>evs. trace w' = trace w @ evs \<and> list_all P evs"
  unfolding emits_only_def by (drule alwaysD) auto

lemma emits_only_ret: "emits_only P (ret x)"
  by (simp add: emits_only_def always_ret)

lemma emits_only_raise: "emits_only P (raise e)"
  by (simp add: emits_only_def always_raise)

lemma emits_only_sys_exit: "emits_only P (sys_exit n)"
  by (simp add: emits_only_def always_sys_exit)

lemma emits_only_print: "quiet_ok P \<Longrightarrow> emits_only P (print s)"
  by (simp add: emits_only_def always_print quiet_ok_def)

lemma emits_only_input: "P (Input p) \<Longrightarrow> emits_only P (input p)"
  by (simp add: emits_only_def always_input)

lemma list_all_git_events:
  "quiet_ok P \<Longrightarrow> P (Popen cmdline) \<Longrightarrow> list_all P (git_events cmdline p)"
  by (auto simp: git_events_def announce_def echo_def quiet_ok_def list_all_iff
      dest: set_takeWhileD)

lemma emits_only_git:
  "quiet_ok P \<Longrightarrow> P (Popen (''git'' # arguments)) \<Longrightarrow> emits_only P (git arguments)"
  unfolding emits_only_def by (rule always_git) (rule list_all_git_events)

lemma emits_only_bnd:
  "emits_only P m \<Longrightarrow> (\<And>x. emits_only P (f x)) \<Longrightarrow> emits_only P (bnd m f)"
  unfolding emits_only_def by (rule always_bnd) (simp_all add: composable_def)

lemma emits_only_thn:
  "emits_only P m \<Longrightarrow> emits_only P n \<Longrightarrow> emits_only P (thn m n)"
  unfolding thn_def by (rule emits_only_bnd)

lemma emits_only_if:
  "(c \<Longrightarrow> emits_only P m) \<Longrightarrow> (\<not> c \<Longrightarrow> emits_only P n) \<Longrightarrow> emits_only P (if c then m else n)"
  by simp

lemma emits_only_item0: "emits_only P (item0 xs)"
  by (cases xs) (simp_all add: item0_def emits_only_ret emits_only_raise)

lemma emits_only_first_commit: "emits_only P (first_commit_on_branch commits)"
  by (induction commits) (simp_all add: emits_only_ret emits_only_raise)

lemma emits_only_confirm: "(\<not> yes \<Longrightarrow> P (Input prompt)) \<Longrightarrow> emits_only P (confirm yes prompt)"
  by (simp add: confirm_def emits_only_ret emits_only_bnd emits_only_input)

lemmas emits_only_intros =
  emits_only_ret emits_only_raise emits_only_sys_exit emits_only_print emits_only_git
  emits_only_bnd emits_only_thn emits_only_if emits_only_item0 emits_only_first_commit

lemma emits_only_push_and_pull:
  assumes "quiet_ok P"
    and "P (Popen [''git'', ''push'', ''--force'', remote a, ''HEAD:'' @ fb])"
    and "P (Popen [''git'', ''push'', remote a, ''HEAD:'' @ target_branch a])"
    and "P (Popen [''git'', ''checkout'', target_branch a])"
    and "P (Popen [''git'', ''pull'', remote a, target_branch a, ''--rebase''])"
  shows "emits_only P (push_and_pull a fb)"
  unfolding push_and_pull_def using assms by (intro emits_only_intros) simp_all

lemma emits_only_branches:
  assumes "quiet_ok P"
    and "\<And>arguments. P (Popen (''git'' # ''rev-parse'' # arguments))"
  shows "emits_only P (branches a)"
  unfolding branches_def using assms by (intro emits_only_intros) simp_all

lemma emits_only_first_and_head:
  assumes "quiet_ok P"
    and "P (Popen [''git'', ''fetch'', remote a])"
    and "P (Popen [''git'', ''rev-list'', ''--left-right'', ''--reverse'',
               ''HEAD...'' @ target_branch_remote a])"
    and "P (Popen [''git'', ''rev-parse'', ''HEAD''])"
  shows "emits_only P (first_and_head a)"
  unfolding first_and_head_def using assms by (intro emits_only_intros) simp_all

lemma emits_only_cleanup:
  assumes "quiet_ok P"
    and "\<not> assume_yes a \<Longrightarrow> P (Input ''Delete feature branches (y/N): '')"
    and "P (Popen [''git'', ''branch'', ''-d'', fb])"
    and "P (Popen [''git'', ''push'', remote a, fb, ''--delete''])"
  shows "emits_only P (cleanup a fb)"
  unfolding cleanup_def delete_feature_branch_def using assms
  by (intro emits_only_intros emits_only_confirm) simp_all

subsection \<open>Lower case\<close>

lemma of_char_upper_y: "(of_char c :: nat) = 0x59 \<Longrightarrow> c = CHR ''Y''"
proof -
  assume "(of_char c :: nat) = 0x59"
  then have "(of_char c :: nat) = of_char (CHR ''Y'')" by simp
  then show ?thesis by (simp only: of_char_eq_iff)
qed

lemma lower_char_upper_y: "lower_char (CHR ''Y'') = CHR ''y''"
  by code_simp

lemma lower_char_lower_y: "lower_char (CHR ''y'') = CHR ''y''"
  by code_simp

lemma lower_char_y: "lower_char c = CHR ''y'' \<longleftrightarrow> c = CHR ''y'' \<or> c = CHR ''Y''"
proof
  assume l: "lower_char c = CHR ''y''"
  show "c = CHR ''y'' \<or> c = CHR ''Y''"
  proof (cases "0x41 \<le> (of_char c :: nat) \<and> (of_char c :: nat) \<le> 0x5A")
    case True
    with l have "char_of ((of_char c :: nat) + 0x20) = CHR ''y''"
      by (simp add: lower_char_def Let_def)
    then have "(of_char (char_of ((of_char c :: nat) + 0x20) :: char) :: nat) = of_char (CHR ''y'')"
      by simp
    with True have "(of_char c :: nat) = 0x59" by (simp add: of_char_of)
    then show ?thesis by (simp add: of_char_upper_y)
  next
    case False
    with l show ?thesis by (simp add: lower_char_def Let_def)
  qed
next
  assume "c = CHR ''y'' \<or> c = CHR ''Y''"
  then show "lower_char c = CHR ''y''"
    by (auto simp: lower_char_upper_y lower_char_lower_y)
qed

lemma lower_y: "''y'' = lower answer \<longleftrightarrow> answer = ''y'' \<or> answer = ''Y''"
proof (cases answer)
  case Nil
  then show ?thesis by (simp add: lower_def)
next
  case (Cons c cs)
  have "CHR ''y'' = lower_char c \<longleftrightarrow> c = CHR ''y'' \<or> c = CHR ''Y''"
    using lower_char_y [of c] by (simp add: eq_commute)
  with Cons show ?thesis by (auto simp: lower_def)
qed

subsection \<open>Command lines of a trace\<close>

lemma cmds_append: "cmds (xs @ ys) = cmds xs @ cmds ys"
  by (induction xs rule: cmds.induct) simp_all

lemma cmds_echo: "cmds (echo ls) = []"
  by (induction ls) (simp_all add: echo_def)

lemma cmds_git_events: "cmds (git_events cmdline p) = [cmdline]"
  by (simp add: git_events_def announce_def cmds_append cmds_echo)

lemma set_cmds: "set (cmds evs) = {c. Popen c \<in> set evs}"
  by (induction evs rule: cmds.induct) auto

lemma steps_ret: "steps (ret x) []"
  by (simp add: steps_def ret_def)

lemma steps_print: "steps (print s) []"
  by (simp add: steps_def print_def emit_def cmds_append)

lemma steps_git: "steps (git arguments) [''git'' # arguments]"
  unfolding steps_def
proof (intro allI impI)
  fix w r w'
  assume "git arguments w = (r, w')"
  then have "cmds (trace w') = cmds (trace w) @ take 1 [''git'' # arguments]"
    by (auto simp: git_run cmds_append cmds_git_events)
  then show "\<exists>n \<le> length [''git'' # arguments].
      cmds (trace w') = cmds (trace w) @ take n [''git'' # arguments]
      \<and> (outcome r = None \<longrightarrow> n = length [''git'' # arguments])"
    by (intro exI [of _ 1]) simp
qed

lemma steps_bnd:
  assumes "steps m p1" and "\<And>x. steps (f x) p2" and "plan = p1 @ p2"
  shows "steps (bnd m f) plan"
  unfolding steps_def
proof (intro allI impI)
  fix w r w'
  assume "bnd m f w = (r, w')"
  then show "\<exists>n \<le> length plan. cmds (trace w') = cmds (trace w) @ take n plan
      \<and> (outcome r = None \<longrightarrow> n = length plan)"
  proof (cases rule: bndE)
    case (stop e)
    with assms(1) obtain n where "n \<le> length p1" "cmds (trace w') = cmds (trace w) @ take n p1"
      unfolding steps_def by blast
    with stop assms(3) show ?thesis by (intro exI [of _ n]) simp
  next
    case (go x w1)
    with assms(1) have 1: "cmds (trace w1) = cmds (trace w) @ p1"
      unfolding steps_def by fastforce
    from go assms(2) obtain n where n: "n \<le> length p2"
      "cmds (trace w') = cmds (trace w1) @ take n p2" "outcome r = None \<longrightarrow> n = length p2"
      unfolding steps_def by blast
    with 1 assms(3) show ?thesis by (intro exI [of _ "length p1 + n"]) simp
  qed
qed

lemma steps_thn:
  "steps m p1 \<Longrightarrow> steps n p2 \<Longrightarrow> plan = p1 @ p2 \<Longrightarrow> steps (thn m n) plan"
  unfolding thn_def by (rule steps_bnd)

lemma steps_push_and_pull:
  "steps (push_and_pull a fb) [force_push_cmd a fb, push_target_cmd a, checkout_cmd a, pull_cmd a]"
  unfolding push_and_pull_def force_push_cmd_def push_target_cmd_def checkout_cmd_def pull_cmd_def
  by (rule steps_thn steps_print steps_git steps_ret)+ simp_all

subsection \<open>Runs that return\<close>

lemma item0_run:
  "item0 xs w = (case xs of [] \<Rightarrow> (Inl (Raised IndexError), w) | x # _ \<Rightarrow> (Inr x, w))"
  by (simp add: item0_def raise_def ret_def split: list.splits)

lemma bnd_Inr_iff:
  "bnd m f w = (Inr y, w') \<longleftrightarrow> (\<exists>x w1. m w = (Inr x, w1) \<and> f x w1 = (Inr y, w'))"
  by (auto simp: bnd_def split: prod.splits sum.splits)

lemma thn_Inr_iff:
  "thn m n w = (Inr y, w') \<longleftrightarrow> (\<exists>x w1. m w = (Inr x, w1) \<and> n w1 = (Inr y, w'))"
  by (simp add: thn_def bnd_Inr_iff)

lemma ret_Inr_iff: "ret x w = (Inr y, w') \<longleftrightarrow> y = x \<and> w' = w"
  by (auto simp: ret_def)

lemma print_run: "print s w = (Inr (), w\<lparr>trace := trace w @ [Print s]\<rparr>)"
  by (simp add: print_def emit_def)

lemma print_Inr_iff: "print s w = (Inr u, w') \<longleftrightarrow> w' = w\<lparr>trace := trace w @ [Print s]\<rparr>"
  by (auto simp: print_run)

lemma item0_Inr_iff: "item0 xs w = (Inr x, w') \<longleftrightarrow> (\<exists>rest. xs = x # rest) \<and> w' = w"
  by (cases xs) (auto simp: item0_run)

lemma git_Inr_iff:
  "git arguments w = (Inr ls, w') \<longleftrightarrow>
     git_result (procs w (spawned w) (''git'' # arguments)) = Inr ls
     \<and> w' = w\<lparr>spawned := Suc (spawned w),
         trace := trace w @ git_events (''git'' # arguments) (procs w (spawned w) (''git'' # arguments))\<rparr>"
  by (auto simp: git_run)

lemmas Inr_iffs = bnd_Inr_iff thn_Inr_iff ret_Inr_iff print_Inr_iff item0_Inr_iff git_Inr_iff

lemma branches_Inr:
  assumes "branches a w = (Inr (fb, t, f), w1)"
  shows "\<exists>x y z.
      git_result (procs w (spawned w) rev_parse_head_ref) = Inr (fb # x)
    \<and> git_result (procs w (Suc (spawned w)) [''git'', ''rev-parse'', target_branch a]) = Inr (t # y)
    \<and> git_result (procs w (Suc (Suc (spawned w))) [''git'', ''rev-parse'', fb]) = Inr (f # z)
    \<and> procs w1 = procs w \<and> stdin w1 = stdin w \<and> spawned w1 = spawned w + 3
    \<and> map verb (cmds (trace w1)) = map verb (cmds (trace w)) @ [''rev-parse'', ''rev-parse'', ''rev-parse'']"
  using assms unfolding branches_def rev_parse_head_ref_def
  by (clarsimp simp: Inr_iffs cmds_append cmds_git_events verb_def)

subsection \<open>The script, part by part\<close>

lemma script_Options: "script (Options a) = merge_pull a"
  by (simp add: script_def parse_args_def)

lemma merge_pull_after_branches:
  "branches a w = (Inr (fb, t, f), w1) \<Longrightarrow>
   merge_pull a w =
     thn (same_ref_guard t f)
    (bnd (first_and_head a) (\<lambda>(first_commit, head_sha1).
     thn (rebase_or_squash a first_commit head_sha1)
    (thn (push_and_pull a fb)
         (cleanup a fb)))) w1"
  by (simp add: merge_pull_def bnd_def)

lemma merge_pull_after_first_and_head:
  "branches a w = (Inr (fb, t, f), w1) \<Longrightarrow> t \<noteq> f \<Longrightarrow>
   first_and_head a w1 = (Inr (c, h), w2) \<Longrightarrow>
   merge_pull a w =
     thn (rebase_or_squash a c h) (thn (push_and_pull a fb) (cleanup a fb)) w2"
  by (simp add: merge_pull_after_branches same_ref_guard_def thn_def bnd_def ret_def)

subsection \<open>Queries without output\<close>

lemma silent_git_result: "silent p \<Longrightarrow> git_result p = Inr []"
  by (simp add: silent_def git_result_def decodable_def captured_def)

lemma first_commit_value:
  "\<exists>l \<in> set commits. startswith l ''<'' \<Longrightarrow>
     \<exists>c. \<forall>w. first_commit_on_branch commits w = (Inr c, w)"
  by (induction commits) (auto simp: ret_def)

lemmas step_simps =
  bnd_def thn_def ret_def raise_def sys_exit_def print_run item0_run git_run

subsection \<open>Events of the parts\<close>

lemma read_contents_run:
  "read_contents contents w =
     (Inr (contents @ stdin w),
      w\<lparr>stdin := [], trace := trace w @ replicate (Suc (length (stdin w))) (Input [])\<rparr>)"
proof (induction "stdin w" arbitrary: contents w)
  case Nil
  then show ?case
    by (subst read_contents.simps) (simp add: input_def)
next
  case (Cons l ls)
  from Cons(2) have s: "stdin w = l # ls" by simp
  have "ls = stdin (w\<lparr>stdin := ls, trace := trace w @ [Input []]\<rparr>)" by simp
  from Cons(1) [OF this, of "contents @ [l]"] show ?case
    by (subst read_contents.simps) (simp add: input_def s replicate_app_Cons_same)
qed

lemma emits_only_read_contents: "P (Input []) \<Longrightarrow> emits_only P (read_contents contents)"
  by (auto simp: emits_only_def always_def read_contents_run list_all_iff)

lemma emits_only_commit_message:
  assumes "quiet_ok P" and "\<not> assume_yes a \<Longrightarrow> P (Input ''Re-use the this message (y/N): '')"
    and "P (Input [])"
  shows "emits_only P (commit_message a msg)"
  unfolding commit_message_def ask_message_def enter_message_def using assms
  by (auto split: option.splits
      intro!: emits_only_intros emits_only_confirm emits_only_read_contents)

lemma emits_only_squash:
  assumes "quiet_ok P" and "\<not> assume_yes a \<Longrightarrow> P (Input ''Re-use the this message (y/N): '')"
    and "P (Input [])"
    and "\<And>arguments. P (Popen (''git'' # ''show'' # arguments))"
    and "\<And>arguments. P (Popen (''git'' # ''merge'' # arguments))"
    and "\<And>arguments. P (Popen (''git'' # ''reset'' # arguments))"
    and "\<And>arguments. P (Popen (''git'' # ''commit'' # arguments))"
  shows "emits_only P (squash a c)"
  unfolding squash_def Let_def using assms
  by (intro emits_only_intros emits_only_commit_message) simp_all

lemma emits_only_rebase:
  assumes "quiet_ok P" and "P (Popen [''git'', ''rebase'', target_branch_remote a])"
  shows "emits_only P (thn (print ''Rebasing commit(s)...'')
       (thn (git [''rebase'', target_branch_remote a]) (ret ())))"
  using assms by (intro emits_only_intros) simp_all

lemma emits_only_guard: "quiet_ok P \<Longrightarrow> emits_only P (same_ref_guard t f)"
  unfolding same_ref_guard_def by (intro emits_only_intros) simp_all

lemma quiet_ok_not_squashing: "quiet_ok (\<lambda>e. \<not> squashing e)"
  by (simp add: quiet_ok_def)

lemma popen_in_git_events: "Popen cmdline \<in> set (git_events cmdline p)"
  by (simp add: git_events_def announce_def)

lemma trace_grows_git:
  "git arguments w = (r, w') \<Longrightarrow> Popen (''git'' # arguments) \<in> set (trace w')"
  by (auto simp: git_run popen_in_git_events)

subsection \<open>The four commands of the push phase\<close>

lemma quiet_ok_aside: "quiet_ok (aside a fb)"
  by (simp add: quiet_ok_def aside_def)

lemma aside_Input: "aside a fb (Input p)"
  by (simp add: aside_def)

lemma aside_Popen:
  "verb c \<noteq> ''push'' \<Longrightarrow> verb c \<noteq> ''checkout'' \<Longrightarrow> verb c \<noteq> ''pull'' \<Longrightarrow> aside a fb (Popen c)"
  by (auto simp: aside_def publishing_def force_push_cmd_def push_target_cmd_def
      checkout_cmd_def pull_cmd_def verb_def)

lemma aside_delete: "aside a fb (Popen [''git'', ''push'', remote a, fb', ''--delete''])"
  by (auto simp: aside_def publishing_def force_push_cmd_def push_target_cmd_def
      checkout_cmd_def pull_cmd_def)

lemma distinct_publishing: "distinct (publishing a fb)"
  by (auto simp: publishing_def force_push_cmd_def push_target_cmd_def
      checkout_cmd_def pull_cmd_def)

lemma aside_cmds: "list_all (aside a fb) evs \<Longrightarrow> \<forall>c \<in> set (cmds evs). c \<notin> set (publishing a fb)"
  by (auto simp: set_cmds list_all_iff aside_def)

lemma emits_only_before_publishing:
  "emits_only (aside a fb) (branches a)"
  "emits_only (aside a fb) (same_ref_guard t f)"
  "emits_only (aside a fb) (first_and_head a)"
  "emits_only (aside a fb) (rebase_or_squash a c h)"
  "emits_only (aside a fb) (cleanup a fb')"
proof -
  note q = quiet_ok_aside [of a fb]
  show "emits_only (aside a fb) (branches a)"
    by (rule emits_only_branches [OF q]) (simp add: aside_Popen verb_def)
  show "emits_only (aside a fb) (same_ref_guard t f)"
    by (rule emits_only_guard [OF q])
  show "emits_only (aside a fb) (first_and_head a)"
    by (rule emits_only_first_and_head [OF q]) (simp_all add: aside_Popen verb_def)
  show "emits_only (aside a fb) (rebase_or_squash a c h)"
    unfolding rebase_or_squash_def
    by (intro emits_only_if emits_only_rebase emits_only_squash q aside_Input)
       (simp_all add: aside_Popen verb_def)
  show "emits_only (aside a fb) (cleanup a fb')"
    by (rule emits_only_cleanup [OF q]) (simp_all add: aside_Input aside_Popen aside_delete verb_def)
qed

lemma publish_shape:
  assumes "script (Options a) (start ps lines) = (r, w)"
  shows "\<exists>fb pre n post. cmds (trace w) = pre @ take n (publishing a fb) @ post
    \<and> (\<forall>c \<in> set pre \<union> set post. c \<notin> set (publishing a fb))
    \<and> (n \<noteq> 0 \<longrightarrow> (\<exists>t f w1. branches a (start ps lines) = (Inr (fb, t, f), w1)))
    \<and> (r = Inr () \<longrightarrow> n = 4)"
proof -
  define w0 where "w0 = start ps lines"
  have quietly: "\<exists>fb pre n post. cmds (trace w) = pre @ take n (publishing a fb) @ post
    \<and> (\<forall>c \<in> set pre \<union> set post. c \<notin> set (publishing a fb))
    \<and> (n \<noteq> 0 \<longrightarrow> (\<exists>t f w1. branches a (start ps lines) = (Inr (fb, t, f), w1)))
    \<and> (r = Inr () \<longrightarrow> n = 4)"
    if "list_all (aside a fb) (trace w)" and "r \<noteq> Inr ()" for fb
    using aside_cmds [OF that(1)] that(2)
    by (intro exI [of _ fb] exI [of _ "cmds (trace w)"] exI [of _ 0] exI [of _ "[]"]) simp
  from assms have "merge_pull a w0 = (r, w)" by (simp add: script_Options w0_def)
  then show ?thesis unfolding merge_pull_def
  proof (cases rule: bndE)
    case (stop e)
    from emits_onlyD [OF emits_only_before_publishing(1) [where a = a and fb = "[]"] stop(1)] stop(2)
    show ?thesis by (intro quietly [of "[]"]) (auto simp: w0_def start_def)
  next
    case (go x w1)
    obtain fb t f where x: "x = (fb, t, f)" by (cases x)
    from emits_onlyD [OF emits_only_before_publishing(1) [where a = a and fb = fb] go(1)]
    have t1: "list_all (aside a fb) (trace w1)" by (auto simp: w0_def start_def)
    from go(1) x have br: "branches a (start ps lines) = (Inr (fb, t, f), w1)"
      by (simp add: w0_def)
    from go(2) x have "thn (same_ref_guard t f)
      (bnd (first_and_head a) (\<lambda>(first_commit, head_sha1).
         thn (rebase_or_squash a first_commit head_sha1)
          (thn (push_and_pull a fb) (cleanup a fb)))) w1 = (r, w)" by simp
    then show ?thesis
    proof (cases rule: thnE)
      case (stop e)
      from emits_onlyD [OF emits_only_before_publishing(2) [where a = a and fb = fb] stop(1)] t1 stop(2)
      show ?thesis by (intro quietly [of fb]) auto
    next
      case (go u w1')
      from emits_onlyD [OF emits_only_before_publishing(2) [where a = a and fb = fb] go(1)] t1
      have t1': "list_all (aside a fb) (trace w1')" by auto
      from go(2) show ?thesis
      proof (cases rule: bndE)
        case (stop e)
        from emits_onlyD [OF emits_only_before_publishing(3) [where a = a and fb = fb] stop(1)] t1' stop(2)
        show ?thesis by (intro quietly [of fb]) auto
      next
        case (go y w2)
        obtain c h where y: "y = (c, h)" by (cases y)
        from emits_onlyD [OF emits_only_before_publishing(3) [where a = a and fb = fb] go(1)] t1'
        have t2: "list_all (aside a fb) (trace w2)" by auto
        from go(2) y have "thn (rebase_or_squash a c h)
          (thn (push_and_pull a fb) (cleanup a fb)) w2 = (r, w)" by simp
        then show ?thesis
        proof (cases rule: thnE)
          case (stop e)
          from emits_onlyD [OF emits_only_before_publishing(4) [where a = a and fb = fb] stop(1)] t2 stop(2)
          show ?thesis by (intro quietly [of fb]) auto
        next
          case (go v w3)
          from emits_onlyD [OF emits_only_before_publishing(4) [where a = a and fb = fb] go(1)] t2
          have t3: "list_all (aside a fb) (trace w3)" by auto
          note pre = aside_cmds [OF t3]
          from go(2) show ?thesis
          proof (cases rule: thnE)
            case (stop e)
            from steps_push_and_pull [of a fb] stop(1) obtain n where
              n: "cmds (trace w) = cmds (trace w3) @ take n (publishing a fb)"
              unfolding steps_def publishing_def by blast
            with pre stop(2) br show ?thesis
              by (intro exI [of _ fb] exI [of _ "cmds (trace w3)"] exI [of _ n] exI [of _ "[]"])
                 auto
          next
            case (go z w4)
            from steps_push_and_pull [of a fb] go(1) have
              4: "cmds (trace w4) = cmds (trace w3) @ take 4 (publishing a fb)"
              unfolding steps_def publishing_def by fastforce
            from emits_onlyD [OF emits_only_before_publishing(5) [where a = a and fb = fb] go(2)] obtain evs where
              evs: "trace w = trace w4 @ evs" "list_all (aside a fb) evs" by auto
            from evs(1) 4 have "cmds (trace w) = cmds (trace w3) @ take 4 (publishing a fb) @ cmds evs"
              by (simp add: cmds_append)
            with pre aside_cmds [OF evs(2)] br show ?thesis
              by (intro exI [of _ fb] exI [of _ "cmds (trace w3)"] exI [of _ 4]
                  exI [of _ "cmds evs"]) auto
          qed
        qed
      qed
    qed
  qed
qed

subsection \<open>Order in a list\<close>

lemma only_occurrence:
  assumes "pre @ x # post = u @ x # v" and "x \<notin> set pre" and "x \<notin> set post"
  shows "u = pre"
  using assms by (metis append_Cons_eq_iff)

lemma in_order:
  assumes cs: "cs = pre @ take n [A, B, C, D] @ post"
    and out: "\<forall>x \<in> set pre \<union> set post. x \<notin> set [A, B, C, D]"
    and d: "distinct [A, B, C, D]"
    and occ: "cs = u @ c # v"
  shows "(c = D \<longrightarrow> C \<in> set u) \<and> (c = C \<longrightarrow> B \<in> set u) \<and> (c = B \<longrightarrow> A \<in> set u)"
proof -
  consider "n = 0" | "n = 1" | "n = 2" | "n = 3" | "n \<ge> 4" by linarith
  then show ?thesis
  proof cases
    case 1
    with cs occ out have "c \<in> set pre \<union> set post"
      by (metis Un_iff append_Nil in_set_conv_decomp set_append take_0)
    with out show ?thesis by auto
  next
    case 2
    then have t: "take n [A, B, C, D] = [A]" by simp
    from cs occ have "c \<in> set (pre @ [A] @ post)" unfolding t
      by (metis in_set_conv_decomp)
    with out d show ?thesis by auto
  next
    case 3
    then have t: "take n [A, B, C, D] = [A, B]" by (simp add: numeral_2_eq_2)
    from cs occ have "c \<in> set (pre @ [A, B] @ post)" unfolding t
      by (metis in_set_conv_decomp)
    with out d have c: "c = A \<or> c = B \<or> (c \<noteq> C \<and> c \<noteq> D \<and> c \<noteq> B)" by auto
    have "A \<in> set u" if "c = B"
    proof -
      from cs occ t that have "(pre @ [A]) @ B # post = u @ B # v" by simp
      from only_occurrence [OF this] out d have "u = pre @ [A]" by auto
      then show ?thesis by simp
    qed
    with c d show ?thesis by auto
  next
    case 4
    then have t: "take n [A, B, C, D] = [A, B, C]" by (simp add: numeral_3_eq_3)
    from cs occ have "c \<in> set (pre @ [A, B, C] @ post)" unfolding t
      by (metis in_set_conv_decomp)
    with out d have c: "c \<noteq> D" by auto
    have "A \<in> set u" if "c = B"
    proof -
      from cs occ t that have "(pre @ [A]) @ B # (C # post) = u @ B # v" by simp
      from only_occurrence [OF this] out d have "u = pre @ [A]" by auto
      then show ?thesis by simp
    qed
    moreover have "B \<in> set u" if "c = C"
    proof -
      from cs occ t that have "(pre @ [A, B]) @ C # post = u @ C # v" by simp
      from only_occurrence [OF this] out d have "u = pre @ [A, B]" by auto
      then show ?thesis by simp
    qed
    ultimately show ?thesis using c by simp
  next
    case 5
    then have t: "take n [A, B, C, D] = [A, B, C, D]" by simp
    have "A \<in> set u" if "c = B"
    proof -
      from cs occ t that have "(pre @ [A]) @ B # (C # D # post) = u @ B # v" by simp
      from only_occurrence [OF this] out d have "u = pre @ [A]" by auto
      then show ?thesis by simp
    qed
    moreover have "B \<in> set u" if "c = C"
    proof -
      from cs occ t that have "(pre @ [A, B]) @ C # (D # post) = u @ C # v" by simp
      from only_occurrence [OF this] out d have "u = pre @ [A, B]" by auto
      then show ?thesis by simp
    qed
    moreover have "C \<in> set u" if "c = D"
    proof -
      from cs occ t that have "(pre @ [A, B, C]) @ D # post = u @ D # v" by simp
      from only_occurrence [OF this] out d have "u = pre @ [A, B, C]" by auto
      then show ?thesis by simp
    qed
    ultimately show ?thesis by simp
  qed
qed

subsection \<open>Failing fast\<close>

lemma fail_fast_append_None:
  "fail_fast e1 None \<Longrightarrow> fail_fast (e1 @ e2) r = fail_fast e2 r"
proof (induction e1)
  case Nil
  then show ?case by simp
next
  case (Cons e es)
  then show ?case by (cases e) (auto split: if_splits)
qed

lemma fail_fast_echo: "fail_fast (echo ls @ evs) r = fail_fast evs r"
  by (induction ls) (simp_all add: echo_def)

lemma fail_fast_git_events: "fail_fast (git_events cmdline p) (outcome (git_result p))"
  using fail_fast_echo [of _ "[]"]
  by (simp add: git_events_def git_result_def announce_def fail_fast_echo)

lemma fail_fast_at_wait:
  "fail_fast (pre @ Wait rc # post) r \<Longrightarrow> rc \<noteq> 0 \<Longrightarrow>
     post = [Print [], Print (diagnostic rc)] \<and> r = Some (Exit 1)"
proof (induction pre)
  case Nil
  then show ?case by simp
next
  case (Cons e pre)
  show ?case
  proof (cases e)
    case (Wait rc')
    show ?thesis
    proof (cases "rc' = 0")
      case True
      with Cons Wait show ?thesis by simp
    next
      case False
      with Cons.prems(1) Wait have "pre @ Wait rc # post = [Print [], Print (diagnostic rc')]"
        by simp
      moreover have "Wait rc \<in> set (pre @ Wait rc # post)" by simp
      ultimately have "Wait rc \<in> set [Print [], Print (diagnostic rc')]" by simp
      then show ?thesis by simp
    qed
  next
    case (Print s)
    with Cons show ?thesis by simp
  next
    case (Popen c)
    with Cons show ?thesis by simp
  next
    case (Input p)
    with Cons show ?thesis by simp
  qed
qed

lemma fail_fast_split:
  "fail_fast evs r \<Longrightarrow> evs = pre @ Wait rc # post \<Longrightarrow> rc \<noteq> 0 \<Longrightarrow>
     post = [Print [], Print (diagnostic rc)] \<and> r = Some (Exit 1)"
  using fail_fast_at_wait by blast

lemma composable_orderly: "composable orderly"
  by (auto simp: composable_def orderly_def fail_fast_append_None)

lemma orderly_ret: "always orderly (ret x)"
  by (rule always_ret) (simp add: orderly_def)

lemma orderly_raise: "always orderly (raise (Raised e))"
  by (rule always_raise) (simp add: orderly_def)

lemma orderly_exit_1: "always orderly (sys_exit 1)"
  by (rule always_sys_exit) (simp add: orderly_def)

lemma orderly_print: "always orderly (print s)"
  by (rule always_print) (simp add: orderly_def)

lemma orderly_input: "always orderly (input p)"
  by (rule always_input) (simp_all add: orderly_def)

lemma exits_one_git_result: "outcome (git_result p) = Some (Exit n) \<Longrightarrow> n = 1"
  by (simp add: git_result_def split: if_splits)

lemma orderly_git: "always orderly (git arguments)"
  by (rule always_git) (simp add: orderly_def fail_fast_git_events exits_one_git_result)

lemma orderly_bnd: "always orderly m \<Longrightarrow> (\<And>x. always orderly (f x)) \<Longrightarrow> always orderly (bnd m f)"
  by (rule always_bnd [OF composable_orderly])

lemma orderly_thn: "always orderly m \<Longrightarrow> always orderly n \<Longrightarrow> always orderly (thn m n)"
  unfolding thn_def by (rule orderly_bnd)

lemma orderly_if:
  "(c \<Longrightarrow> always orderly m) \<Longrightarrow> (\<not> c \<Longrightarrow> always orderly n) \<Longrightarrow>
     always orderly (if c then m else n)"
  by simp

lemma orderly_item0: "always orderly (item0 xs)"
  by (cases xs) (simp_all add: item0_def orderly_ret orderly_raise)

lemma orderly_first_commit: "always orderly (first_commit_on_branch commits)"
  by (induction commits) (simp_all add: orderly_ret orderly_raise)

lemma orderly_confirm: "always orderly (confirm yes prompt)"
  by (simp add: confirm_def orderly_ret orderly_bnd orderly_input)

lemma fail_fast_inputs: "fail_fast (replicate n (Input p)) r"
  by (induction n) simp_all

lemma orderly_read_contents: "always orderly (read_contents contents)"
  by (simp add: always_def read_contents_run orderly_def fail_fast_inputs)

lemmas orderly_intros =
  orderly_ret orderly_raise orderly_exit_1 orderly_print orderly_input orderly_git
  orderly_bnd orderly_thn orderly_if orderly_item0 orderly_first_commit orderly_confirm
  orderly_read_contents

lemma orderly_commit_message: "always orderly (commit_message a msg)"
  unfolding commit_message_def ask_message_def enter_message_def
  by (auto split: option.splits intro!: orderly_intros)

lemma orderly_merge_pull: "always orderly (merge_pull a)"
  unfolding merge_pull_def branches_def same_ref_guard_def first_and_head_def
    rebase_or_squash_def squash_def push_and_pull_def cleanup_def delete_feature_branch_def
    Let_def
  by (intro orderly_intros orderly_commit_message | simp only: split_def)+

lemma script_fail_fast:
  assumes "script cl (start ps lines) = (r, w)" and "trace w = pre @ Wait rc # post"
    and "rc \<noteq> 0"
  shows "r = Inl (Exit 1) \<and> post = [Print [], Print (diagnostic rc)]"
proof (cases cl)
  case Usage_error
  with assms show ?thesis
    by (auto simp: script_def parse_args_def sys_exit_def raise_def bnd_def start_def)
next
  case Help
  with assms show ?thesis
    by (auto simp: script_def parse_args_def sys_exit_def raise_def bnd_def start_def)
next
  case (Options a)
  with assms(1) have "merge_pull a (start ps lines) = (r, w)" by (simp add: script_Options)
  from alwaysD [OF orderly_merge_pull this] have "fail_fast (trace w) (outcome r)"
    by (auto simp: start_def orderly_def)
  from fail_fast_split [OF this assms(2,3)] show ?thesis
    by (cases r) auto
qed

lemma script_exit_codes:
  assumes "merge_pull a (start ps lines) = (r, w)"
  shows "r = Inr () \<or> r = Inl (Exit 1) \<or> (\<exists>e. r = Inl (Raised e))"
proof -
  from alwaysD [OF orderly_merge_pull assms] have "\<forall>n. outcome r = Some (Exit n) \<longrightarrow> n = 1"
    by (auto simp: orderly_def)
  then show ?thesis
    by (cases r) (auto simp: outcome_def split: sum.splits abort.splits intro: abort.exhaust)
qed

subsection \<open>The message of the commit\<close>

lemma branches_frame:
  assumes "branches a w = (Inr (fb, t, f), w1)"
  shows "procs w1 = procs w" and "stdin w1 = stdin w" and "spawned w1 = spawned w + 3"
  using branches_Inr [OF assms] by auto

lemma first_commit_none:
  "\<forall>c \<in> set commits. \<not> startswith c ''<'' \<Longrightarrow>
     first_commit_on_branch commits v = (Inl (Raised StopIteration), v)"
  by (induction commits) (simp_all add: raise_def)
















subsection \<open>Evaluating example runs\<close>

lemma confirm_run:
  "confirm True prompt w = (Inr True, w)"
  "stdin w = answer # rest \<Longrightarrow>
     confirm False prompt w =
       (Inr (answer = ''y'' \<or> answer = ''Y''),
        w\<lparr>stdin := rest, trace := trace w @ [Input prompt]\<rparr>)"
  using lower_y [of answer]
  by (simp_all add: confirm_def ret_def bnd_def input_def)

lemma says_results:
  "git_result (says []) = Inr []"
  "git_result (says [''feature/x'']) = Inr [''feature/x'']"
  "git_result (says [''aaa'']) = Inr [''aaa'']"
  "git_result (says [''bbb'']) = Inr [''bbb'']"
  "git_result (says [''>ccc'', ''<ddd'', ''<bbb'']) = Inr [''>ccc'', ''<ddd'', ''<bbb'']"
  "git_result (says [''>ccc'', ''<bbb'']) = Inr [''>ccc'', ''<bbb'']"
  "git_result \<lparr>out = [], returncode = 0\<rparr> = Inr []"
  by (simp_all add: git_result_def decodable_def captured_def says_def rstrip_def is_space_def
      byte_in_def)

lemma bnd_apply:
  "bnd m f w = (case m w of (Inl e, w') \<Rightarrow> (Inl e, w') | (Inr x, w') \<Rightarrow> f x w')"
  by (simp add: bnd_def)

lemma thn_apply:
  "thn m n w = (case m w of (Inl e, w') \<Rightarrow> (Inl e, w') | (Inr x, w') \<Rightarrow> n w')"
  by (simp add: thn_def bnd_def)

lemma ret_apply: "ret x w = (Inr x, w)"
  by (simp add: ret_def)

lemma raise_apply: "raise e w = (Inl e, w)"
  by (simp add: raise_def)

lemma sys_exit_apply: "sys_exit n w = (Inl (Exit n), w)"
  by (simp add: sys_exit_def raise_def)

lemma confirm_apply:
  "confirm yes prompt w =
     (if yes then (Inr True, w)
      else case stdin w of
        [] \<Rightarrow> (Inl (Raised EOFError), w\<lparr>trace := trace w @ [Input prompt]\<rparr>)
      | answer # rest \<Rightarrow> (Inr (answer = ''y'' \<or> answer = ''Y''),
          w\<lparr>stdin := rest, trace := trace w @ [Input prompt]\<rparr>))"
  using lower_y by (simp add: confirm_def bnd_def ret_def input_def split: list.splits)

lemmas walk_simps =
  script_Options merge_pull_def branches_def first_and_head_def rebase_or_squash_def squash_def
  push_and_pull_def cleanup_def delete_feature_branch_def same_ref_guard_def commit_message_def
  ask_message_def enter_message_def Let_def
  bnd_apply thn_apply ret_apply raise_apply sys_exit_apply print_run item0_run git_run
  confirm_apply read_contents_run startswith_def target_branch_remote_def
  start_def replies_def default_args_def says_results cmds_append cmds_git_events

subsection \<open>The squash, step by step\<close>





lemmas proc_simps =
  git_result_def git_events_def decodable_def captured_def rstrip_def is_space_def byte_in_def
  announce_def echo_def

lemma more_results:
  "git_result (says [''>ccc'']) = Inr [''>ccc'']"
  "git_result (says [''<bbb'']) = Inr [''<bbb'']"
  "git_result refusal = Inl (Exit 1)"
  "git_result garbled = Inl (Raised UnicodeDecodeError)"
  "git_result garbled_quietly = Inl (Raised UnicodeDecodeError)"
  "git_result padded = Inr [''bbb'', ''second'']"
  by (simp_all add: proc_simps says_def refusal_def garbled_def garbled_quietly_def padded_def)

lemma wait_in_git_events:
  "decodable (out p) \<Longrightarrow> Wait (returncode p) \<in> set (git_events cmdline p)"
  by (simp add: git_events_def)

lemma decodable_refusal: "decodable (out refusal)" "returncode refusal = 128"
  by (simp_all add: proc_simps refusal_def)

lemma popen_iff_cmds: "Popen c \<in> set evs \<longleftrightarrow> c \<in> set (cmds evs)"
  by (simp add: set_cmds)

lemma silent_says: "silent (says [])"
  by (simp add: silent_def says_def)

subsection \<open>Example runs of the squash\<close>






subsection \<open>The guard\<close>

lemma guard_exit:
  assumes "branches a (start ps lines) = (Inr (fb, t, t), w1)"
  shows "fst (script (Options a) (start ps lines)) = Inl (Exit 1)"
  using assms
  by (simp add: script_Options merge_pull_after_branches same_ref_guard_def thn_apply print_run
      sys_exit_apply)

section \<open>The claims\<close>




text \<open>
  C2. When the first commit of the branch is HEAD (exactly one commit ahead), the run
  issues the rebase onto the remote target branch and, from its first event to its
  last, no merge, no reset, no commit, no question about the message and no line read
  for a message, whether \<^verbatim>\<open>--message\<close> is given or not.
\<close>

theorem one_commit_only_rebases:
  assumes "branches a (start ps lines) = (Inr (fb, t, f), w1)" and "t \<noteq> f"
    and "first_and_head a w1 = (Inr (first_commit, head_sha1), w2)"
    and "first_commit = head_sha1"
    and "script (Options a) (start ps lines) = (r, w)"
  shows "Popen [''git'', ''rebase'', target_branch_remote a] \<in> set (trace w)
    \<and> (\<forall>e \<in> set (trace w). \<not> squashing e)"
proof -
  let ?P = "\<lambda>e. \<not> squashing e"
  let ?rebase = "thn (print ''Rebasing commit(s)...'')
       (thn (git [''rebase'', target_branch_remote a]) (ret ()))"
  let ?rest = "thn (push_and_pull a fb) (cleanup a fb)"
  note q = quiet_ok_not_squashing
  have b: "emits_only ?P (branches a)"
    by (rule emits_only_branches [OF q]) (simp add: verb_def)
  have fh: "emits_only ?P (first_and_head a)"
    by (rule emits_only_first_and_head [OF q]) (simp_all add: verb_def)
  have rb: "emits_only ?P ?rebase"
    by (rule emits_only_rebase [OF q]) (simp add: verb_def)
  have rest: "emits_only ?P ?rest"
    by (intro emits_only_thn emits_only_push_and_pull emits_only_cleanup q)
       (simp_all add: verb_def)
  from emits_onlyD [OF b assms(1)] have t1: "list_all ?P (trace w1)"
    by (auto simp: start_def)
  from emits_onlyD [OF fh assms(3)] t1 have t2: "list_all ?P (trace w2)"
    by auto
  from assms have run: "thn ?rebase ?rest w2 = (r, w)"
    by (simp add: script_Options merge_pull_after_first_and_head rebase_or_squash_def)
  from emits_onlyD [OF emits_only_thn [OF rb rest] run] t2
  have all: "list_all ?P (trace w)" by auto
  have issued: "Popen [''git'', ''rebase'', target_branch_remote a] \<in> set (trace w)"
    using run
  proof (cases rule: thnE)
    case (stop e)
    then show ?thesis
      by (auto simp: thn_def bnd_def print_run ret_def split: prod.splits sum.splits
          dest!: trace_grows_git)
  next
    case (go x w3)
    from go(1) have "Popen [''git'', ''rebase'', target_branch_remote a] \<in> set (trace w3)"
      by (auto simp: thn_def bnd_def print_run ret_def split: prod.splits sum.splits
          dest!: trace_grows_git)
    moreover from emits_onlyD [OF rest go(2)] obtain evs where "trace w = trace w3 @ evs"
      by auto
    ultimately show ?thesis by simp
  qed
  from issued all show ?thesis by (simp add: list_all_iff)
qed

text \<open>
  C2 on a branch one commit ahead.
\<close>

theorem one_commit_only_rebases_witness:
  "branches yes_args (start one_ahead [])
     = (Inr (''feature/x'', ''aaa'', ''bbb''), snd (branches yes_args (start one_ahead [])))
   \<and> first_and_head yes_args (snd (branches yes_args (start one_ahead [])))
     = (Inr (''bbb'', ''bbb''),
        snd (first_and_head yes_args (snd (branches yes_args (start one_ahead [])))))
   \<and> Popen [''git'', ''rebase'', target_branch_remote yes_args]
        \<in> set (trace (snd (script (Options yes_args) (start one_ahead []))))
   \<and> list_all (\<lambda>e. \<not> squashing e) (trace (snd (script (Options yes_args) (start one_ahead []))))"
proof -
  have b: "branches yes_args (start one_ahead [])
     = (Inr (''feature/x'', ''aaa'', ''bbb''), snd (branches yes_args (start one_ahead [])))"
    by (simp add: walk_simps one_ahead_def yes_args_def)
  have ne: "''aaa'' \<noteq> ''bbb''" by simp
  have f: "first_and_head yes_args (snd (branches yes_args (start one_ahead [])))
     = (Inr (''bbb'', ''bbb''),
        snd (first_and_head yes_args (snd (branches yes_args (start one_ahead [])))))"
    by (simp add: walk_simps one_ahead_def yes_args_def)
  have run: "script (Options yes_args) (start one_ahead [])
      = (fst (script (Options yes_args) (start one_ahead [])),
         snd (script (Options yes_args) (start one_ahead [])))"
    by simp
  from one_commit_only_rebases [OF b ne f refl run] b f show ?thesis
    by (simp add: list_all_iff)
qed

text \<open>
  C3. Whenever the three queries of lines 76--78 succeed and the target branch and the
  current branch resolve to the same commit identifier, the script prints the message
  that asks the user to check out the feature branch and exits with code 1. The only
  commands it has issued by then are the three \<^verbatim>\<open>rev-parse\<close> queries: no fetch and
  no push.
\<close>

theorem same_ref_guard_stops:
  assumes "branches a (start ps lines) = (Inr (fb, t, f), w1)" and "t = f"
  shows "\<exists>w'. script (Options a) (start ps lines) = (Inl (Exit 1), w')
    \<and> trace w' = trace w1 @ [Print (''Target branch and HEAD point to the same ref. ''
                    @ ''Make sure you are on your feature branch.'')]
    \<and> map verb (cmds (trace w')) = [''rev-parse'', ''rev-parse'', ''rev-parse'']
    \<and> (\<forall>c \<in> set (cmds (trace w')). verb c \<noteq> ''fetch'' \<and> verb c \<noteq> ''push'')"
proof -
  from branches_Inr [OF assms(1)]
  have v: "map verb (cmds (trace w1)) = [''rev-parse'', ''rev-parse'', ''rev-parse'']"
    by (auto simp: start_def)
  let ?w = "w1\<lparr>trace := trace w1 @ [Print (''Target branch and HEAD point to the same ref. ''
                    @ ''Make sure you are on your feature branch.'')]\<rparr>"
  have run: "script (Options a) (start ps lines) = (Inl (Exit 1), ?w)"
    using assms
    by (simp add: script_Options merge_pull_after_branches same_ref_guard_def thn_def bnd_def
        print_run sys_exit_def raise_def)
  have c: "cmds (trace ?w) = cmds (trace w1)" by (simp add: cmds_append)
  have "verb c = ''rev-parse''" if "c \<in> set (cmds (trace w1))" for c
  proof -
    from that have "verb c \<in> set (map verb (cmds (trace w1)))" by simp
    then show ?thesis unfolding v by simp
  qed
  then have nf: "\<forall>c \<in> set (cmds (trace ?w)). verb c \<noteq> ''fetch'' \<and> verb c \<noteq> ''push''"
    unfolding c by simp
  from run v c nf show ?thesis by (intro exI [of _ ?w] conjI) simp_all
qed

text \<open>
  C3 on a branch at the same commit as \<^verbatim>\<open>master\<close>.
\<close>

theorem same_ref_guard_stops_witness:
  "branches default_args (start same_ref []) =
     (Inr (''feature/x'', ''aaa'', ''aaa''), snd (branches default_args (start same_ref [])))
   \<and> (\<exists>w'. script (Options default_args) (start same_ref []) = (Inl (Exit 1), w')
      \<and> map verb (cmds (trace w')) = [''rev-parse'', ''rev-parse'', ''rev-parse''])"
proof -
  have h: "branches default_args (start same_ref []) =
     (Inr (''feature/x'', ''aaa'', ''aaa''), snd (branches default_args (start same_ref [])))"
    by (simp add: walk_simps same_ref_def)
  from same_ref_guard_stops [OF h refl] h show ?thesis by auto
qed

text \<open>
  C4, as amended. For every call of the command runner whose subprocess prints lines
  that all decode as UTF-8: when the subprocess exits with a non-zero code the runner
  prints the diagnostic that names the code and ends the program with
  \<^verbatim>\<open>sys.exit(1)\<close>, and what follows the call is not run; when it exits with zero the
  runner returns the captured lines and what follows runs on them. In every run of the
  script, a wait that returns a non-zero code is followed by the diagnostic for that
  code and by nothing else, and the run ends with exit code 1.
\<close>

theorem runner_fails_fast:
  assumes "decodable (out p)" and "p = procs w (spawned w) (''git'' # arguments)"
  shows "(returncode p \<noteq> 0 \<longrightarrow>
           (\<exists>pre w'. git arguments w = (Inl (Exit 1), w')
              \<and> trace w' = trace w @ pre
                   @ [Wait (returncode p), Print [], Print (diagnostic (returncode p))]
              \<and> bnd (git arguments) f w = (Inl (Exit 1), w')))
       \<and> (returncode p = 0 \<longrightarrow>
           (\<exists>w'. git arguments w = (Inr (captured (out p)), w')
              \<and> bnd (git arguments) f w = f (captured (out p)) w'))
       \<and> (\<forall>cl ps lines r w' pre rc post.
             script cl (start ps lines) = (r, w') \<and> trace w' = pre @ Wait rc # post \<and> rc \<noteq> 0
             \<longrightarrow> r = Inl (Exit 1) \<and> post = [Print [], Print (diagnostic rc)])"
proof (intro conjI impI allI)
  assume rc: "returncode p \<noteq> 0"
  let ?w' = "w\<lparr>spawned := Suc (spawned w), trace := trace w @ git_events (''git'' # arguments) p\<rparr>"
  from assms rc have g: "git arguments w = (Inl (Exit 1), ?w')"
    by (simp add: git_run git_result_def)
  from assms(1) rc have "trace ?w' = trace w @ (announce (''git'' # arguments) @ echo (captured (out p))
      @ [Print []]) @ [Wait (returncode p), Print [], Print (diagnostic (returncode p))]"
    by (simp add: git_events_def)
  moreover from g have "bnd (git arguments) f w = (Inl (Exit 1), ?w')"
    by (simp add: bnd_def)
  ultimately show "\<exists>pre w'. git arguments w = (Inl (Exit 1), w')
      \<and> trace w' = trace w @ pre
           @ [Wait (returncode p), Print [], Print (diagnostic (returncode p))]
      \<and> bnd (git arguments) f w = (Inl (Exit 1), w')"
    using g by blast
next
  assume rc: "returncode p = 0"
  let ?w' = "w\<lparr>spawned := Suc (spawned w), trace := trace w @ git_events (''git'' # arguments) p\<rparr>"
  from assms rc have g: "git arguments w = (Inr (captured (out p)), ?w')"
    by (simp add: git_run git_result_def)
  then have "bnd (git arguments) f w = f (captured (out p)) ?w'"
    by (simp add: bnd_def)
  with g show "\<exists>w'. git arguments w = (Inr (captured (out p)), w')
      \<and> bnd (git arguments) f w = f (captured (out p)) w'"
    by blast
next
  fix cl ps lines r w' pre rc post
  assume "script cl (start ps lines) = (r, w') \<and> trace w' = pre @ Wait rc # post \<and> rc \<noteq> 0"
  then show "r = Inl (Exit 1)" and "post = [Print [], Print (diagnostic rc)]"
    using script_fail_fast by blast+
qed

text \<open>
  C4 as the specification states it fails on output that is not UTF-8: line 61 raises
  \<^verbatim>\<open>UnicodeDecodeError\<close> inside the reading loop, before line 66 looks at the exit
  code. A subprocess that exits with 128 gets no diagnostic, and one that exits with 0
  does not make the runner return.
\<close>

theorem garbled_output_counterexample:
  "returncode garbled \<noteq> 0
   \<and> fst (git [''fetch'', ''origin''] (start (replies [garbled]) [])) = Inl (Raised UnicodeDecodeError)
   \<and> Print (diagnostic (returncode garbled))
        \<notin> set (trace (snd (git [''fetch'', ''origin''] (start (replies [garbled]) []))))
   \<and> returncode garbled_quietly = 0
   \<and> fst (git [''fetch'', ''origin''] (start (replies [garbled_quietly]) []))
        = Inl (Raised UnicodeDecodeError)"
  by (simp add: git_run more_results start_def replies_def)
     (simp add: proc_simps garbled_def garbled_quietly_def diagnostic_def)

text \<open>
  C4 on a fetch that fails with code 128.
\<close>

theorem runner_fails_fast_witness:
  "decodable (out refusal) \<and> returncode refusal \<noteq> 0
   \<and> (\<exists>pre w'. git [''fetch'', ''origin''] (start (replies [refusal]) []) = (Inl (Exit 1), w')
        \<and> trace w' = trace (start (replies [refusal]) []) @ pre
             @ [Wait (returncode refusal), Print [], Print (diagnostic (returncode refusal))])
   \<and> decodable (out (says [''aaa''])) \<and> returncode (says [''aaa'']) = 0
   \<and> (\<exists>w'. git [''rev-parse'', ''master''] (start (replies [says [''aaa'']]) [])
          = (Inr (captured (out (says [''aaa'']))), w'))"
proof -
  have d: "decodable (out refusal)" by (rule decodable_refusal)
  have p: "refusal = procs (start (replies [refusal]) []) (spawned (start (replies [refusal]) []))
      (''git'' # [''fetch'', ''origin''])"
    by (simp add: start_def replies_def)
  have rc: "returncode refusal \<noteq> 0" by (simp add: decodable_refusal)
  from runner_fails_fast [OF d p, where f = item0] rc
  have 1: "\<exists>pre w'. git [''fetch'', ''origin''] (start (replies [refusal]) []) = (Inl (Exit 1), w')
        \<and> trace w' = trace (start (replies [refusal]) []) @ pre
             @ [Wait (returncode refusal), Print [], Print (diagnostic (returncode refusal))]"
    by blast
  have d2: "decodable (out (says [''aaa'']))"
    by (simp add: proc_simps says_def)
  have p2: "says [''aaa''] = procs (start (replies [says [''aaa'']]) [])
      (spawned (start (replies [says [''aaa'']]) [])) (''git'' # [''rev-parse'', ''master''])"
    by (simp add: start_def replies_def)
  have rc2: "returncode (says [''aaa'']) = 0" by (simp add: says_def)
  from runner_fails_fast [OF d2 p2, where f = item0] rc2
  have 2: "\<exists>w'. git [''rev-parse'', ''master''] (start (replies [says [''aaa'']]) [])
          = (Inr (captured (out (says [''aaa'']))), w')"
    by blast
  from d rc 1 d2 rc2 2 show ?thesis by (intro conjI)
qed

text \<open>
  C5. The first commit of the branch is the first entry of the divergence list that
  starts with \<^verbatim>\<open><\<close>, without that character. When no entry starts with \<^verbatim>\<open><\<close>,
  line 95 raises \<^verbatim>\<open>StopIteration\<close>, which nothing catches: the run ends there with
  exit status 1.
\<close>

theorem first_commit_scan:
  "(\<forall>before commit after.
       commits = before @ commit # after \<and> (\<forall>c \<in> set before. \<not> startswith c ''<'')
       \<and> startswith commit ''<'' \<longrightarrow>
       first_commit_on_branch commits w = (Inr (drop 1 commit), w)
       \<and> commit = ''<'' @ drop 1 commit)
   \<and> ((\<forall>c \<in> set commits. \<not> startswith c ''<'') \<longrightarrow>
       first_commit_on_branch commits w = (Inl (Raised StopIteration), w))
   \<and> (\<forall>a ps lines fb t f w1 u.
       branches a (start ps lines) = (Inr (fb, t, f), w1) \<and> t \<noteq> f
       \<and> git_result (ps 3 (fetch_cmd a)) = Inr u
       \<and> git_result (ps 4 (rev_list_cmd a)) = Inr commits
       \<and> (\<forall>c \<in> set commits. \<not> startswith c ''<'') \<longrightarrow>
       fst (script (Options a) (start ps lines)) = Inl (Raised StopIteration)
       \<and> exit_status (fst (script (Options a) (start ps lines))) = 1)"
proof (intro conjI allI impI)
  fix before commit after
  assume h: "commits = before @ commit # after \<and> (\<forall>c \<in> set before. \<not> startswith c ''<'')
       \<and> startswith commit ''<''"
  then have nb: "\<forall>c \<in> set before. \<not> startswith c ''<''" and sc: "startswith commit ''<''"
    by simp_all
  from nb sc have "first_commit_on_branch (before @ commit # after) w = (Inr (drop 1 commit), w)"
    by (induction before) (simp_all add: ret_def)
  with h show "first_commit_on_branch commits w = (Inr (drop 1 commit), w)" by simp
  from h show "commit = ''<'' @ drop 1 commit"
    by (cases commit) (auto simp: startswith_def)
next
  assume "\<forall>c \<in> set commits. \<not> startswith c ''<''"
  then show "first_commit_on_branch commits w = (Inl (Raised StopIteration), w)"
    by (rule first_commit_none)
next
  fix a ps lines fb t f w1 u
  assume h: "branches a (start ps lines) = (Inr (fb, t, f), w1) \<and> t \<noteq> f
       \<and> git_result (ps 3 (fetch_cmd a)) = Inr u
       \<and> git_result (ps 4 (rev_list_cmd a)) = Inr commits
       \<and> (\<forall>c \<in> set commits. \<not> startswith c ''<'')"
  then have none: "\<And>v. first_commit_on_branch commits v = (Inl (Raised StopIteration), v)"
    by (simp add: first_commit_none)
  from h have br: "branches a (start ps lines) = (Inr (fb, t, f), w1)" by simp
  from branches_frame [OF br] have fr: "procs w1 = ps" "spawned w1 = 3"
    by (simp_all add: start_def)
  from h none fr show r: "fst (script (Options a) (start ps lines)) = Inl (Raised StopIteration)"
    by (simp add: script_Options merge_pull_after_branches [OF br] same_ref_guard_def
        first_and_head_def step_simps fetch_cmd_def rev_list_cmd_def eval_nat_numeral)
  then show "exit_status (fst (script (Options a) (start ps lines))) = 1"
    by (simp add: exit_status_def)
qed

text \<open>
  C5 on the list \<^verbatim>\<open>>ccc <ddd <bbb\<close>, and on a run whose divergence list is \<^verbatim>\<open>>ccc\<close>.
\<close>

theorem first_commit_scan_witness:
  "first_commit_on_branch [''>ccc'', ''<ddd'', ''<bbb''] (start two_ahead [])
     = (Inr ''ddd'', start two_ahead [])
   \<and> fst (script (Options default_args) (start no_left [])) = Inl (Raised StopIteration)"
proof -
  have 1: "[''>ccc'', ''<ddd'', ''<bbb''] = [''>ccc''] @ ''<ddd'' # [''<bbb'']
       \<and> (\<forall>c \<in> set [''>ccc'']. \<not> startswith c ''<'') \<and> startswith ''<ddd'' ''<''"
    by (simp add: startswith_def)
  have 2: "branches default_args (start no_left [])
       = (Inr (''feature/x'', ''aaa'', ''bbb''), snd (branches default_args (start no_left [])))
     \<and> ''aaa'' \<noteq> ''bbb''
     \<and> git_result (no_left 3 (fetch_cmd default_args)) = Inr []
     \<and> git_result (no_left 4 (rev_list_cmd default_args)) = Inr [''>ccc'']
     \<and> (\<forall>c \<in> set [''>ccc'']. \<not> startswith c ''<'')"
    by (simp add: walk_simps no_left_def more_results)
  from first_commit_scan [of "[''>ccc'', ''<ddd'', ''<bbb'']" "start two_ahead []",
      THEN conjunct1, rule_format, OF 1]
  have a: "first_commit_on_branch [''>ccc'', ''<ddd'', ''<bbb''] (start two_ahead [])
     = (Inr ''ddd'', start two_ahead [])" by simp
  from first_commit_scan [of "[''>ccc'']" "start two_ahead []",
      THEN conjunct2, THEN conjunct2, rule_format, OF 2]
  have b: "fst (script (Options default_args) (start no_left [])) = Inl (Raised StopIteration)"
    by simp
  from a b show ?thesis by simp
qed

text \<open>
  C6, as amended. The exit status of a run is 0, 1 or 2. It is 2 exactly when the
  command line has a usage error; it is 0 exactly when the script runs to its end or
  the command line asks for help; it is 1 whenever a command has exited with a non-zero
  code and whenever the same-ref guard triggers (and after an exception nobody
  catches).
\<close>

theorem exit_statuses:
  assumes "script cl (start ps lines) = (r, w)"
  shows "exit_status r \<in> {0, 1, 2}
    \<and> (exit_status r = 2 \<longleftrightarrow> cl = Usage_error)
    \<and> (exit_status r = 0 \<longleftrightarrow> r = Inr () \<or> cl = Help)
    \<and> (\<forall>rc. Wait rc \<in> set (trace w) \<and> rc \<noteq> 0 \<longrightarrow> exit_status r = 1)
    \<and> (\<forall>a fb t w1. cl = Options a \<and> branches a (start ps lines) = (Inr (fb, t, t), w1)
          \<longrightarrow> exit_status r = 1)"
proof -
  have failure: "exit_status r = 1" if "Wait rc \<in> set (trace w)" "rc \<noteq> 0" for rc
  proof -
    from that(1) obtain pre post where "trace w = pre @ Wait rc # post"
      by (auto simp: in_set_conv_decomp)
    from script_fail_fast [OF assms this that(2)] show ?thesis
      by (simp add: exit_status_def)
  qed
  have guard: "exit_status r = 1"
    if "cl = Options a" "branches a (start ps lines) = (Inr (fb, t, t), w1)" for a fb t w1
    using guard_exit [OF that(2)] assms that(1)
    by (auto simp: exit_status_def)
  have codes: "exit_status r \<in> {0, 1, 2}
    \<and> (exit_status r = 2 \<longleftrightarrow> cl = Usage_error)
    \<and> (exit_status r = 0 \<longleftrightarrow> r = Inr () \<or> cl = Help)"
  proof (cases cl)
    case Usage_error
    with assms show ?thesis
      by (auto simp: script_def parse_args_def sys_exit_def raise_def bnd_def exit_status_def)
  next
    case Help
    with assms show ?thesis
      by (auto simp: script_def parse_args_def sys_exit_def raise_def bnd_def exit_status_def)
  next
    case (Options a)
    with assms have "merge_pull a (start ps lines) = (r, w)" by (simp add: script_Options)
    from script_exit_codes [OF this] Options show ?thesis
      by (auto simp: exit_status_def)
  qed
  from codes failure guard show ?thesis by blast
qed

text \<open>
  C6 as the specification states it fails on a command line the argument parser
  rejects (an unknown option, say): \<^verbatim>\<open>parse_args\<close> exits with status 2.
\<close>

theorem usage_error_counterexample:
  "exit_status (fst (script Usage_error (start (replies []) []))) = 2"
  by (simp add: script_def parse_args_def bnd_apply sys_exit_apply exit_status_def)

text \<open>
  C6 on a run whose fetch fails with code 128 and on a run that succeeds.
\<close>

theorem exit_statuses_witness:
  "Wait 128 \<in> set (trace (snd (script (Options default_args) (start refused []))))
   \<and> exit_status (fst (script (Options default_args) (start refused []))) = 1
   \<and> fst (script (Options yes_args) (start one_ahead [])) = Inr ()
   \<and> exit_status (fst (script (Options yes_args) (start one_ahead []))) = 0"
proof -
  have run: "script (Options default_args) (start refused [])
      = (fst (script (Options default_args) (start refused [])),
         snd (script (Options default_args) (start refused [])))"
    by simp
  have w: "Wait 128 \<in> set (trace (snd (script (Options default_args) (start refused []))))"
    using wait_in_git_events [OF decodable_refusal(1)]
    by (simp add: walk_simps refused_def more_results decodable_refusal)
  have run2: "script (Options yes_args) (start one_ahead [])
      = (fst (script (Options yes_args) (start one_ahead [])),
         snd (script (Options yes_args) (start one_ahead [])))"
    by simp
  have ok: "fst (script (Options yes_args) (start one_ahead [])) = Inr ()"
    by (simp add: walk_simps one_ahead_def yes_args_def)
  from exit_statuses [OF run] w
  have 1: "exit_status (fst (script (Options default_args) (start refused []))) = 1"
    by auto
  from exit_statuses [OF run2] ok
  have 2: "exit_status (fst (script (Options yes_args) (start one_ahead []))) = 0"
    by auto
  from w 1 ok 2 show ?thesis by simp
qed

text \<open>
  C7. In every run, each start of the pull with rebase comes after a start of the
  checkout of the target branch, each start of that checkout after a start of the push
  of HEAD to the target branch, and each start of that push after a start of the forced
  push of HEAD to the feature branch the first query named.
  A run that reaches its end has started the four of them.
\<close>

theorem pushes_in_order:
  assumes "script (Options a) (start ps lines) = (r, w)" and "cmds (trace w) = u @ c # v"
  shows "(c = pull_cmd a \<longrightarrow> checkout_cmd a \<in> set u)
    \<and> (c = checkout_cmd a \<longrightarrow> push_target_cmd a \<in> set u)
    \<and> (c = push_target_cmd a \<longrightarrow>
         (\<exists>fb t f w1. branches a (start ps lines) = (Inr (fb, t, f), w1)
            \<and> force_push_cmd a fb \<in> set u))
    \<and> (r = Inr () \<longrightarrow> pull_cmd a \<in> set (cmds (trace w)))"
proof -
  from publish_shape [OF assms(1)] obtain fb pre n post where
    shape: "cmds (trace w) = pre @ take n (publishing a fb) @ post"
    and out: "\<forall>c \<in> set pre \<union> set post. c \<notin> set (publishing a fb)"
    and br: "n \<noteq> 0 \<longrightarrow> (\<exists>t f w1. branches a (start ps lines) = (Inr (fb, t, f), w1))"
    and all: "r = Inr () \<longrightarrow> n = 4"
    by blast
  from distinct_publishing [of a fb]
  have d: "distinct [force_push_cmd a fb, push_target_cmd a, checkout_cmd a, pull_cmd a]"
    by (simp add: publishing_def)
  from in_order [OF shape [unfolded publishing_def] out [unfolded publishing_def] d assms(2)]
  have o: "(c = pull_cmd a \<longrightarrow> checkout_cmd a \<in> set u)
    \<and> (c = checkout_cmd a \<longrightarrow> push_target_cmd a \<in> set u)
    \<and> (c = push_target_cmd a \<longrightarrow> force_push_cmd a fb \<in> set u)" .
  have "n \<noteq> 0" if "c = push_target_cmd a"
  proof
    assume "n = 0"
    with shape assms(2) have "c \<in> set pre \<union> set post"
      by (metis Un_iff append_Nil in_set_conv_decomp set_append take_0)
    with out that show False by (auto simp: publishing_def)
  qed
  moreover have "pull_cmd a \<in> set (cmds (trace w))" if "r = Inr ()"
  proof -
    from that all have "n = 4" by simp
    with shape show ?thesis by (simp add: publishing_def)
  qed
  ultimately show ?thesis using br o by blast
qed

text \<open>
  C7 on a run that succeeds on a branch one commit ahead.
\<close>

theorem pushes_in_order_witness:
  "cmds (trace (snd (script (Options yes_args) (start one_ahead [])))) =
   [rev_parse_head_ref, [''git'', ''rev-parse'', ''master''], [''git'', ''rev-parse'', ''feature/x''],
    fetch_cmd yes_args, rev_list_cmd yes_args, [''git'', ''rev-parse'', ''HEAD''],
    [''git'', ''rebase'', ''origin/master''], force_push_cmd yes_args ''feature/x'',
    push_target_cmd yes_args, checkout_cmd yes_args] @ pull_cmd yes_args #
   [[''git'', ''branch'', ''-d'', ''feature/x''], [''git'', ''push'', ''origin'', ''feature/x'', ''--delete'']]
   \<and> checkout_cmd yes_args \<in> set
   [rev_parse_head_ref, [''git'', ''rev-parse'', ''master''], [''git'', ''rev-parse'', ''feature/x''],
    fetch_cmd yes_args, rev_list_cmd yes_args, [''git'', ''rev-parse'', ''HEAD''],
    [''git'', ''rebase'', ''origin/master''], force_push_cmd yes_args ''feature/x'',
    push_target_cmd yes_args, checkout_cmd yes_args]"
proof -
  have run: "script (Options yes_args) (start one_ahead [])
      = (fst (script (Options yes_args) (start one_ahead [])),
         snd (script (Options yes_args) (start one_ahead [])))"
    by simp
  have cs: "cmds (trace (snd (script (Options yes_args) (start one_ahead [])))) =
   [rev_parse_head_ref, [''git'', ''rev-parse'', ''master''], [''git'', ''rev-parse'', ''feature/x''],
    fetch_cmd yes_args, rev_list_cmd yes_args, [''git'', ''rev-parse'', ''HEAD''],
    [''git'', ''rebase'', ''origin/master''], force_push_cmd yes_args ''feature/x'',
    push_target_cmd yes_args, checkout_cmd yes_args] @ pull_cmd yes_args #
   [[''git'', ''branch'', ''-d'', ''feature/x''], [''git'', ''push'', ''origin'', ''feature/x'', ''--delete'']]"
    by (simp add: walk_simps one_ahead_def yes_args_def rev_parse_head_ref_def fetch_cmd_def
      rev_list_cmd_def force_push_cmd_def push_target_cmd_def checkout_cmd_def pull_cmd_def)
  from pushes_in_order [OF run cs, THEN conjunct1, rule_format, OF refl] cs
  show ?thesis by (intro conjI)
qed

text \<open>
  C8. When the command runner returns, what it returns are the lines of the
  subprocess's output (the one pipe for standard output and standard error), each
  trimmed of trailing whitespace and decoded, in the order they arrived; the same
  lines, in the same order, are what it has echoed.
\<close>

theorem runner_returns_lines:
  assumes "git arguments w = (Inr output, w')"
  shows "map Inr output = map (\<lambda>line. decode (rstrip line))
           (output_lines (out (procs w (spawned w) (''git'' # arguments))))
    \<and> trace w' = trace w @ announce (''git'' # arguments)
         @ map (\<lambda>line. Print (''git> '' @ line)) output @ [Print [], Wait 0]"
proof -
  let ?p = "procs w (spawned w) (''git'' # arguments)"
  from assms have r: "git_result ?p = Inr output"
    and w': "trace w' = trace w @ git_events (''git'' # arguments) ?p"
    by (auto simp: git_Inr_iff)
  from r have d: "decodable (out ?p)" and o: "output = captured (out ?p)"
    and rc: "returncode ?p = 0"
    by (auto simp: git_result_def split: if_splits)
  from d have "\<forall>l \<in> set (output_lines (out ?p)). decode (rstrip l) = Inr (rstrip l)"
    by (auto simp: decodable_def captured_def list_all_iff decode_def)
  with o have "map Inr output = map (\<lambda>line. decode (rstrip line)) (output_lines (out ?p))"
    by (simp add: captured_def)
  moreover from w' d o rc have "trace w' = trace w @ announce (''git'' # arguments)
         @ map (\<lambda>line. Print (''git> '' @ line)) output @ [Print [], Wait 0]"
    by (simp add: git_events_def echo_def)
  ultimately show ?thesis by simp
qed

text \<open>
  C8 on output with trailing blanks, a carriage return and no final line feed.
\<close>

theorem runner_returns_lines_witness:
  "git [''rev-parse'', ''HEAD''] (start (replies [padded]) [])
     = (Inr [''bbb'', ''second''], snd (git [''rev-parse'', ''HEAD''] (start (replies [padded]) [])))
   \<and> map Inr [''bbb'', ''second''] = map (\<lambda>line. decode (rstrip line))
        (output_lines (out (procs (start (replies [padded]) []) (spawned (start (replies [padded]) []))
           (''git'' # [''rev-parse'', ''HEAD'']))))"
proof -
  have g: "git [''rev-parse'', ''HEAD''] (start (replies [padded]) [])
     = (Inr [''bbb'', ''second''], snd (git [''rev-parse'', ''HEAD''] (start (replies [padded]) [])))"
    by (simp add: git_run more_results start_def replies_def)
  from runner_returns_lines [OF g, THEN conjunct1] g show ?thesis
    by (intro conjI)
qed

text \<open>
  C9. Element 0 of what the runner returns is taken without a check: a command that
  succeeds without printing a line makes \<^verbatim>\<open>git(...)[0]\<close> raise \<^verbatim>\<open>IndexError\<close>. This
  holds for each of the four queries of the script: the name of the current branch, the
  commit of the target branch, the commit of the feature branch, and the commit of
  HEAD.
\<close>

theorem silent_rev_parse_raises:
  "(silent (procs w (spawned w) (''git'' # arguments)) \<longrightarrow>
      fst (bnd (git arguments) item0 w) = Inl (Raised IndexError))
   \<and> (silent (ps 0 rev_parse_head_ref) \<longrightarrow>
      fst (script (Options a) (start ps lines)) = Inl (Raised IndexError))
   \<and> (\<forall>fb x. git_result (ps 0 rev_parse_head_ref) = Inr (fb # x)
        \<and> silent (ps 1 [''git'', ''rev-parse'', target_branch a]) \<longrightarrow>
      fst (script (Options a) (start ps lines)) = Inl (Raised IndexError))
   \<and> (\<forall>fb x t y. git_result (ps 0 rev_parse_head_ref) = Inr (fb # x)
        \<and> git_result (ps 1 [''git'', ''rev-parse'', target_branch a]) = Inr (t # y)
        \<and> silent (ps 2 [''git'', ''rev-parse'', fb]) \<longrightarrow>
      fst (script (Options a) (start ps lines)) = Inl (Raised IndexError))
   \<and> (\<forall>fb x t y f z u commits. git_result (ps 0 rev_parse_head_ref) = Inr (fb # x)
        \<and> git_result (ps 1 [''git'', ''rev-parse'', target_branch a]) = Inr (t # y)
        \<and> git_result (ps 2 [''git'', ''rev-parse'', fb]) = Inr (f # z)
        \<and> t \<noteq> f
        \<and> git_result (ps 3 (fetch_cmd a)) = Inr u
        \<and> git_result (ps 4 (rev_list_cmd a)) = Inr commits
        \<and> (\<exists>l \<in> set commits. startswith l ''<'')
        \<and> silent (ps 5 [''git'', ''rev-parse'', ''HEAD'']) \<longrightarrow>
      fst (script (Options a) (start ps lines)) = Inl (Raised IndexError))"
proof (intro conjI allI impI)
  assume "silent (procs w (spawned w) (''git'' # arguments))"
  then show "fst (bnd (git arguments) item0 w) = Inl (Raised IndexError)"
    by (simp add: step_simps silent_git_result)
next
  assume "silent (ps 0 rev_parse_head_ref)"
  then show "fst (script (Options a) (start ps lines)) = Inl (Raised IndexError)"
    by (simp add: script_Options merge_pull_def branches_def step_simps silent_git_result
        start_def rev_parse_head_ref_def)
next
  fix fb x
  assume "git_result (ps 0 rev_parse_head_ref) = Inr (fb # x)
        \<and> silent (ps 1 [''git'', ''rev-parse'', target_branch a])"
  then show "fst (script (Options a) (start ps lines)) = Inl (Raised IndexError)"
    by (simp add: script_Options merge_pull_def branches_def step_simps silent_git_result
        start_def rev_parse_head_ref_def)
next
  fix fb x t y
  assume "git_result (ps 0 rev_parse_head_ref) = Inr (fb # x)
        \<and> git_result (ps 1 [''git'', ''rev-parse'', target_branch a]) = Inr (t # y)
        \<and> silent (ps 2 [''git'', ''rev-parse'', fb])"
  then show "fst (script (Options a) (start ps lines)) = Inl (Raised IndexError)"
    by (simp add: script_Options merge_pull_def branches_def step_simps silent_git_result
        start_def rev_parse_head_ref_def numeral_2_eq_2)
next
  fix fb x t y f z u commits
  assume h: "git_result (ps 0 rev_parse_head_ref) = Inr (fb # x)
        \<and> git_result (ps 1 [''git'', ''rev-parse'', target_branch a]) = Inr (t # y)
        \<and> git_result (ps 2 [''git'', ''rev-parse'', fb]) = Inr (f # z)
        \<and> t \<noteq> f
        \<and> git_result (ps 3 (fetch_cmd a)) = Inr u
        \<and> git_result (ps 4 (rev_list_cmd a)) = Inr commits
        \<and> (\<exists>l \<in> set commits. startswith l ''<'')
        \<and> silent (ps 5 [''git'', ''rev-parse'', ''HEAD''])"
  then have "\<exists>c. \<forall>w. first_commit_on_branch commits w = (Inr c, w)"
    by (simp add: first_commit_value)
  then obtain c where c: "\<And>w. first_commit_on_branch commits w = (Inr c, w)"
    by blast
  from h c show "fst (script (Options a) (start ps lines)) = Inl (Raised IndexError)"
    by (simp add: script_Options merge_pull_def branches_def first_and_head_def same_ref_guard_def
        step_simps silent_git_result
        start_def rev_parse_head_ref_def fetch_cmd_def rev_list_cmd_def eval_nat_numeral)
qed

text \<open>
  C9 on a world where the first query prints nothing, and on one where the query for HEAD does.
\<close>

theorem silent_rev_parse_raises_witness:
  "silent (replies [] 0 rev_parse_head_ref)
   \<and> fst (script (Options default_args) (start (replies []) [])) = Inl (Raised IndexError)
   \<and> silent (headless 5 [''git'', ''rev-parse'', ''HEAD''])
   \<and> fst (script (Options default_args) (start headless [])) = Inl (Raised IndexError)"
proof -
  have s1: "silent (replies [] 0 rev_parse_head_ref)"
    by (simp add: silent_def replies_def)
  have s4: "git_result (headless 0 rev_parse_head_ref) = Inr (''feature/x'' # [])
        \<and> git_result (headless 1 [''git'', ''rev-parse'', target_branch default_args]) = Inr (''aaa'' # [])
        \<and> git_result (headless 2 [''git'', ''rev-parse'', ''feature/x'']) = Inr (''bbb'' # [])
        \<and> ''aaa'' \<noteq> ''bbb''
        \<and> git_result (headless 3 (fetch_cmd default_args)) = Inr []
        \<and> git_result (headless 4 (rev_list_cmd default_args)) = Inr [''<bbb'']
        \<and> (\<exists>l \<in> set [''<bbb'']. startswith l ''<'')
        \<and> silent (headless 5 [''git'', ''rev-parse'', ''HEAD''])"
    by (simp add: headless_def replies_def says_results more_results silent_says
        startswith_def)
  from silent_rev_parse_raises [where ps = "replies []" and a = default_args and lines = "[]",
      THEN conjunct2, THEN conjunct1, rule_format, OF s1]
  have 1: "fst (script (Options default_args) (start (replies []) [])) = Inl (Raised IndexError)" .
  from silent_rev_parse_raises [where ps = headless and a = default_args and lines = "[]",
      THEN conjunct2, THEN conjunct2, THEN conjunct2, THEN conjunct2, rule_format, OF s4]
  have 4: "fst (script (Options default_args) (start headless [])) = Inl (Raised IndexError)" .
  from s1 1 s4 4 show ?thesis by simp
qed

text \<open>
  C10. Under \<^verbatim>\<open>--assume-yes\<close> a confirmation is affirmative without reading input.
  Otherwise it reads one line and is affirmative exactly when that line is \<^verbatim>\<open>y\<close> or
  \<^verbatim>\<open>Y\<close>; \<^verbatim>\<open>yes\<close> and the empty line are negative. Both confirmations of the
  script, the one about the message and the one about deleting the branch, behave so.
\<close>

theorem only_y_confirms:
  "confirm True prompt w = (Inr True, w)
   \<and> (\<forall>answer rest. stdin w = answer # rest \<longrightarrow>
        confirm False prompt w =
          (Inr (answer = ''y'' \<or> answer = ''Y''),
           w\<lparr>stdin := rest, trace := trace w @ [Input prompt]\<rparr>))
   \<and> (\<forall>rest. stdin w = ''yes'' # rest \<longrightarrow> fst (confirm False prompt w) = Inr False)
   \<and> (\<forall>rest. stdin w = [] # rest \<longrightarrow> fst (confirm False prompt w) = Inr False)
   \<and> (assume_yes a \<longrightarrow>
        cleanup a fb w = thn (delete_feature_branch a fb) (print ''Good bye.'') w)
   \<and> (\<forall>answer rest. \<not> assume_yes a \<and> stdin w = answer # rest \<longrightarrow>
        cleanup a fb w =
          thn (if answer = ''y'' \<or> answer = ''Y'' then delete_feature_branch a fb else ret ())
              (print ''Good bye.'')
            (w\<lparr>stdin := rest, trace := trace w @ [Input ''Delete feature branches (y/N): '']\<rparr>))
   \<and> (assume_yes a \<longrightarrow>
        fst (ask_message a msg w) = Inr msg \<and> stdin (snd (ask_message a msg w)) = stdin w)
   \<and> (\<forall>answer rest. \<not> assume_yes a \<and> stdin w = answer # rest \<longrightarrow>
        fst (ask_message a msg w) =
          Inr (if answer = ''y'' \<or> answer = ''Y'' then msg else join [CHR 0x0A] rest))"
proof (intro conjI allI impI)
  show "confirm True prompt w = (Inr True, w)" by (rule confirm_run)
next
  fix answer rest assume "stdin w = answer # rest"
  then show "confirm False prompt w =
          (Inr (answer = ''y'' \<or> answer = ''Y''),
           w\<lparr>stdin := rest, trace := trace w @ [Input prompt]\<rparr>)"
    by (rule confirm_run)
next
  fix rest assume "stdin w = ''yes'' # rest"
  then show "fst (confirm False prompt w) = Inr False" by (simp add: confirm_run)
next
  fix rest assume "stdin w = [] # rest"
  then show "fst (confirm False prompt w) = Inr False" by (simp add: confirm_run)
next
  assume "assume_yes a"
  then show "cleanup a fb w = thn (delete_feature_branch a fb) (print ''Good bye.'') w"
    by (simp add: cleanup_def confirm_run bnd_def)
next
  fix answer rest assume "\<not> assume_yes a \<and> stdin w = answer # rest"
  then show "cleanup a fb w =
          thn (if answer = ''y'' \<or> answer = ''Y'' then delete_feature_branch a fb else ret ())
              (print ''Good bye.'')
            (w\<lparr>stdin := rest, trace := trace w @ [Input ''Delete feature branches (y/N): '']\<rparr>)"
    by (simp add: cleanup_def confirm_run bnd_def)
next
  assume y: "assume_yes a"
  then show "fst (ask_message a msg w) = Inr msg"
    by (simp add: ask_message_def confirm_run step_simps)
  from y show "stdin (snd (ask_message a msg w)) = stdin w"
    by (simp add: ask_message_def confirm_run step_simps)
next
  fix answer rest assume "\<not> assume_yes a \<and> stdin w = answer # rest"
  then show "fst (ask_message a msg w) =
          Inr (if answer = ''y'' \<or> answer = ''Y'' then msg else join [CHR 0x0A] rest)"
    by (simp add: ask_message_def enter_message_def confirm_run step_simps read_contents_run)
qed

text \<open>
  C10 on the answers \<^verbatim>\<open>Y\<close>, \<^verbatim>\<open>yes\<close> and the empty line.
\<close>

theorem only_y_confirms_witness:
  "confirm False ''Delete feature branches (y/N): '' (start (replies []) [''Y'', ''more''])
     = (Inr True, (start (replies []) [''Y'', ''more''])
          \<lparr>stdin := [''more''], trace := [Input ''Delete feature branches (y/N): '']\<rparr>)
   \<and> fst (confirm False ''Delete feature branches (y/N): '' (start (replies []) [''yes''])) = Inr False
   \<and> fst (confirm False ''Delete feature branches (y/N): '' (start (replies []) [[]])) = Inr False"
proof -
  have 1: "stdin (start (replies []) [''Y'', ''more'']) = ''Y'' # [''more'']"
    by (simp add: start_def)
  have 2: "stdin (start (replies []) [''yes'']) = ''yes'' # []"
    by (simp add: start_def)
  have 3: "stdin (start (replies []) [[]]) = [] # []"
    by (simp add: start_def)
  from only_y_confirms [where w = "start (replies []) [''Y'', ''more'']",
      THEN conjunct2, THEN conjunct1, rule_format, OF 1]
       only_y_confirms [where w = "start (replies []) [''yes'']",
      THEN conjunct2, THEN conjunct2, THEN conjunct1, rule_format, OF 2]
       only_y_confirms [where w = "start (replies []) [[]]",
      THEN conjunct2, THEN conjunct2, THEN conjunct2, THEN conjunct1, rule_format, OF 3]
  show ?thesis by (simp add: start_def)
qed

end
